theory Spec2Isabelle
  imports Complex_Main
begin

section \<open>Numeric conventions\<close>

text \<open>
  Go's \<open>int\<close> is a 64-bit two's complement integer on the platforms the program is built
  for: sums and differences wrap around, and \<open>/\<close> truncates towards zero. Integers are
  modelled as \<open>int\<close> with the wrap-around written out.
\<close>

definition wrap64 :: "int \<Rightarrow> int" where
  "wrap64 x = (x + 2 ^ 63) mod 2 ^ 64 - 2 ^ 63"

definition add64 :: "int \<Rightarrow> int \<Rightarrow> int" where
  "add64 x y = wrap64 (x + y)"

definition sub64 :: "int \<Rightarrow> int \<Rightarrow> int" where
  "sub64 x y = wrap64 (x - y)"

definition mul64 :: "int \<Rightarrow> int \<Rightarrow> int" where
  "mul64 x y = wrap64 (x * y)"

definition neg64 :: "int \<Rightarrow> int" where
  "neg64 x = wrap64 (- x)"

definition quot64 :: "int \<Rightarrow> int \<Rightarrow> int" where
  \<comment> \<open>Go's integer division, for a non-zero constant divisor: the quotient is truncated
      towards zero.\<close>
  "quot64 x y = wrap64 (sgn x * sgn y * (\<bar>x\<bar> div \<bar>y\<bar>))"

definition in64 :: "int \<Rightarrow> bool" where
  "in64 x = (- (2 ^ 63) \<le> x \<and> x < 2 ^ 63)"

text \<open>
  \<open>float32\<close> and \<open>float64\<close> values are modelled by the real numbers they denote; signed
  zeros are not modelled. \<open>float64\<close> arithmetic is taken without rounding (an integer
  below \<open>2^53\<close> in magnitude converts to \<open>float64\<close> exactly, a larger one is rounded in
  the code). A float division never panics in Go; a zero divisor gives an infinity or
  NaN, which is kept as a value of its own. A comparison with NaN is false.
\<close>

datatype f64 = Finite real | PosInf | NegInf | NaN

definition fdiv :: "real \<Rightarrow> real \<Rightarrow> f64" where
  "fdiv x y =
     (if y = 0 then (if x = 0 then NaN else if 0 < x then PosInf else NegInf)
      else Finite (x / y))"

fun fgt :: "f64 \<Rightarrow> real \<Rightarrow> bool" where
  "fgt (Finite x) c = (c < x)"
| "fgt PosInf c = True"
| "fgt NegInf c = False"
| "fgt NaN c = False"

definition truncInt :: "real \<Rightarrow> int" where
  \<comment> \<open>The conversion \<open>int(x)\<close> of a float: the fraction is discarded.\<close>
  "truncInt x = (if 0 \<le> x then \<lfloor>x\<rfloor> else \<lceil>x\<rceil>)"

definition toInt :: "real \<Rightarrow> int" where
  \<comment> \<open>\<open>int(x)\<close> into the 64-bit \<open>int\<close>. The language leaves a value outside the range to
      the implementation; the amd64 result, the smallest integer, is taken.\<close>
  "toInt x = (if in64 (truncInt x) then truncInt x else - (2 ^ 63))"

text \<open>
  A \<open>float32\<close> product is rounded to 24 significant bits before it is converted
  (round to nearest, ties to even; exponents below \<open>-126\<close> share the spacing \<open>2^-149\<close>).
  \<open>f32\<close> is that rounding on the reals; overflow to an infinity is not modelled.
\<close>

fun ilog2 :: "nat \<Rightarrow> nat" where
  "ilog2 n = (if n < 2 then 0 else Suc (ilog2 (n div 2)))"

declare ilog2.simps [simp del]

definition pow2 :: "int \<Rightarrow> real" where
  "pow2 k = (if 0 \<le> k then 2 ^ nat k else 1 / 2 ^ nat (- k))"

definition expo :: "real \<Rightarrow> int" where
  \<comment> \<open>For \<open>0 < a\<close>: the \<open>e\<close> with \<open>2^e \<le> a < 2^(e+1)\<close>.\<close>
  "expo a = (if 1 \<le> a then int (ilog2 (nat \<lfloor>a\<rfloor>))
             else - int (Suc (ilog2 (nat (\<lceil>1 / a\<rceil> - 1)))))"

definition roundHalfEven :: "real \<Rightarrow> int" where
  "roundHalfEven q =
     (let f = \<lfloor>q\<rfloor>; d = q - of_int f
      in if d < 1 / 2 then f else if 1 / 2 < d then f + 1 else if even f then f else f + 1)"

definition f32 :: "real \<Rightarrow> real" where
  "f32 x =
     (if x = 0 then 0
      else let a = \<bar>x\<bar>;
               u = pow2 (max (expo a) (- 126) - 23)
           in sgn x * (of_int (roundHalfEven (a / u)) * u))"

section \<open>Data model (types.go)\<close>

record detectedObject =
  confidence :: real
  top_y :: int
  left :: int
  width :: int
  height :: int
  label :: string

text \<open>\<open>type deviceSource int\<close> with the constants \<open>IMAGE\<close>, \<open>VIDEO\<close>, \<open>STREAM\<close> (iota).\<close>

type_synonym deviceSource = int

definition IMAGE :: deviceSource where "IMAGE = 0"
definition VIDEO :: deviceSource where "VIDEO = 1"
definition STREAM :: deviceSource where "STREAM = 2"

text \<open>\<open>strings.HasSuffix\<close> and \<open>strings.HasPrefix\<close>, as the Go library computes them.\<close>

definition hasSuffix :: "string \<Rightarrow> string \<Rightarrow> bool" where
  "hasSuffix s suffix =
     (length suffix \<le> length s \<and> drop (length s - length suffix) s = suffix)"

definition hasPrefix :: "string \<Rightarrow> string \<Rightarrow> bool" where
  "hasPrefix s prefix = (length prefix \<le> length s \<and> take (length prefix) s = prefix)"

definition getDeviceType :: "string \<Rightarrow> deviceSource" where
  "getDeviceType deviceID =
     (if hasSuffix deviceID ''.jpg'' \<or> hasSuffix deviceID ''.png'' then IMAGE
      else if hasSuffix deviceID ''.mp4'' \<or> deviceID = ''0'' then VIDEO
      else if hasPrefix deviceID ''rtsp'' then STREAM
      else - 1)"

text \<open>
  The launch loop of \<open>main\<close>: every device id is classified; an id of negative type is
  logged and skipped, any other starts \<open>detectFromCapture(sourceType, deviceID, i, wg)\<close>.
  The result lists the started pipelines in order (\<open>wg.Add(1)\<close> runs for every id,
  skipped or not).
\<close>

fun launchLoop :: "nat \<Rightarrow> string list \<Rightarrow> (deviceSource \<times> string \<times> nat) list" where
  "launchLoop i [] = []"
| "launchLoop i (deviceID # rest) =
     (let sourceType = getDeviceType deviceID
      in if sourceType < 0 then launchLoop (Suc i) rest
         else (sourceType, deviceID, i) # launchLoop (Suc i) rest)"

section \<open>Geometry (main.go)\<close>

definition boxOf :: "detectedObject \<Rightarrow> int \<times> int \<times> int \<times> int" where
  \<comment> \<open>\<open>[]int{a.left, a.top, a.left + a.width, a.top + a.height}\<close>\<close>
  "boxOf a = (left a, top_y a, add64 (left a) (width a), add64 (top_y a) (height a))"

definition interArea :: "detectedObject \<Rightarrow> detectedObject \<Rightarrow> real" where
  "interArea a b =
     (case (boxOf a, boxOf b) of ((a0, a1, a2, a3), (b0, b1, b2, b3)) \<Rightarrow>
        let xA = max (real_of_int a0) (real_of_int b0);
            yA = max (real_of_int a1) (real_of_int b1);
            xB = min (real_of_int a2) (real_of_int b2);
            yB = min (real_of_int a3) (real_of_int b3)
        in max 0 (xB - xA + 1) * max 0 (yB - yA + 1))"

definition boxArea :: "detectedObject \<Rightarrow> real" where
  "boxArea a =
     (case boxOf a of (a0, a1, a2, a3) \<Rightarrow>
        real_of_int (add64 (sub64 a2 a0) 1) * real_of_int (add64 (sub64 a3 a1) 1))"

definition bbIntersectionOverUnion :: "detectedObject \<Rightarrow> detectedObject \<Rightarrow> f64" where
  "bbIntersectionOverUnion a b =
     fdiv (interArea a b) (boxArea a + boxArea b - interArea a b)"

section \<open>Classification (main.go)\<close>

fun classScan :: "real list \<Rightarrow> nat \<Rightarrow> nat \<Rightarrow> real \<Rightarrow> nat \<times> real" where
  "classScan [] i res mx = (res, mx)"
| "classScan (y # ys) i res mx =
     (if mx < y then classScan ys (Suc i) i y else classScan ys (Suc i) res mx)"

definition getClassIDAndConfidence :: "real list \<Rightarrow> nat \<times> real" where
  "getClassIDAndConfidence x = classScan x 0 0 0"


section \<open>Detection and fusion (main.go)\<close>

text \<open>
  The inner loop of \<open>performDetection\<close> over the accumulated objects: \<open>range\<close> reads every
  entry once, an entry that overlaps the current candidate above the literal 0.7 clears
  \<open>newObject\<close> and is overwritten when the candidate's confidence is strictly greater.
\<close>

fun overlapLoop ::
  "detectedObject \<Rightarrow> detectedObject list \<Rightarrow> bool \<Rightarrow> detectedObject list \<times> bool" where
  "overlapLoop cur [] newObject = ([], newObject)"
| "overlapLoop cur (obj # rest) newObject =
     (let intersection = bbIntersectionOverUnion cur obj
      in if fgt intersection (7 / 10)
         then (case overlapLoop cur rest False of (rest', n) \<Rightarrow>
                 ((if confidence obj < confidence cur then cur else obj) # rest', n))
         else (case overlapLoop cur rest newObject of (rest', n) \<Rightarrow> (obj # rest', n)))"

definition fuseStep :: "detectedObject list \<Rightarrow> detectedObject \<Rightarrow> detectedObject list" where
  "fuseStep detectedObjects cur =
     (if length detectedObjects = 0 then detectedObjects @ [cur]
      else case overlapLoop cur detectedObjects True of
             (objs, newObject) \<Rightarrow> if newObject then objs @ [cur] else objs)"

text \<open>The fusion pass over candidates that have cleared the confidence threshold.\<close>

definition fuse :: "detectedObject list \<Rightarrow> detectedObject list" where
  "fuse cands = foldl fuseStep [] cands"

text \<open>Decimal rendering of an integer, as the verb \<open>%d\<close> prints it.\<close>

fun showNat :: "nat \<Rightarrow> string" where
  "showNat n =
     (if n < 10 then [''0123456789'' ! n]
      else showNat (n div 10) @ [''0123456789'' ! (n mod 10)])"

definition showInt :: "int \<Rightarrow> string" where
  "showInt i = (if i < 0 then CHR ''-'' # showNat (nat (- i)) else showNat (nat i))"

text \<open>
  One row of an output blob: \<open>None\<close> is a run-time panic (a slice or an index out of
  range), \<open>Some None\<close> a row whose confidence does not exceed the threshold, and
  \<open>Some (Some c)\<close> the candidate built from the row. \<open>thr\<close> is the global
  \<open>confidenceTreshold\<close>, \<open>classes\<close> the global label table. The entries of a row are
  \<open>float32\<close> values; the frame size is converted to \<open>float32\<close> and every product is a
  \<open>float32\<close> product.
\<close>

definition rowCandidate ::
  "real \<Rightarrow> string list \<Rightarrow> int \<Rightarrow> int \<Rightarrow> real list \<Rightarrow> detectedObject option option" where
  "rowCandidate thr classes frameCols frameRows row =
     (if length row < 5 then None
      else case getClassIDAndConfidence (drop 5 row) of (classID, conf) \<Rightarrow>
        if thr < conf then
          (let centerX = toInt (f32 (row ! 0 * f32 (real_of_int frameCols)));
               centerY = toInt (f32 (row ! 1 * f32 (real_of_int frameRows)));
               w = toInt (f32 (row ! 2 * f32 (real_of_int frameCols)));
               h = toInt (f32 (row ! 3 * f32 (real_of_int frameRows)))
           in if classID < length classes
              then Some (Some \<lparr>confidence = conf,
                     top_y = sub64 centerY (quot64 h 2),
                     left = sub64 centerX (quot64 w 2),
                     width = w, height = h,
                     label = classes ! classID @ '' - '' @ showInt (toInt (f32 (100 * conf))) @ ''%''\<rparr>)
              else None)
        else Some None)"

fun detectRows ::
  "real \<Rightarrow> string list \<Rightarrow> int \<Rightarrow> int \<Rightarrow> detectedObject list \<Rightarrow> real list list
     \<Rightarrow> detectedObject list option" where
  "detectRows thr classes fc fr objs [] = Some objs"
| "detectRows thr classes fc fr objs (row # rows) =
     (case rowCandidate thr classes fc fr row of
        None \<Rightarrow> None
      | Some None \<Rightarrow> detectRows thr classes fc fr objs rows
      | Some (Some cur) \<Rightarrow> detectRows thr classes fc fr (fuseStep objs cur) rows)"

fun detectOutputs ::
  "real \<Rightarrow> string list \<Rightarrow> int \<Rightarrow> int \<Rightarrow> detectedObject list \<Rightarrow> real list list list
     \<Rightarrow> detectedObject list option" where
  "detectOutputs thr classes fc fr objs [] = Some objs"
| "detectOutputs thr classes fc fr objs (output # outputs) =
     (case detectRows thr classes fc fr objs output of
        None \<Rightarrow> None
      | Some objs' \<Rightarrow> detectOutputs thr classes fc fr objs' outputs)"

text \<open>
  \<open>performDetection\<close>: every output blob is a list of rows of \<open>Cols()\<close> floats each, scanned
  in order; the result starts empty.
\<close>

definition performDetection ::
  "real \<Rightarrow> string list \<Rightarrow> int \<Rightarrow> int \<Rightarrow> real list list list \<Rightarrow> detectedObject list option" where
  "performDetection thr classes frameCols frameRows results =
     detectOutputs thr classes frameCols frameRows [] results"

text \<open>The candidates of a list of rows that clear the threshold, in arrival order.\<close>

definition thresholded ::
  "real \<Rightarrow> string list \<Rightarrow> int \<Rightarrow> int \<Rightarrow> real list list \<Rightarrow> detectedObject list" where
  "thresholded thr classes fc fr rows =
     concat (map (\<lambda>row. case rowCandidate thr classes fc fr row of
                           Some (Some c) \<Rightarrow> [c] | _ \<Rightarrow> []) rows)"

text \<open>No entry overlaps an earlier entry of the list above 0.7.\<close>

fun separated :: "detectedObject list \<Rightarrow> bool" where
  "separated [] = True"
| "separated (x # xs) =
     ((\<forall>y\<in>set xs. \<not> fgt (bbIntersectionOverUnion y x) (7 / 10)) \<and> separated xs)"

text \<open>The arithmetic of a box stays inside the 64-bit range.\<close>

definition fitsInt64 :: "detectedObject \<Rightarrow> bool" where
  "fitsInt64 a =
     (in64 (left a) \<and> in64 (top_y a) \<and> in64 (width a) \<and> in64 (height a) \<and>
      in64 (left a + width a) \<and> in64 (top_y a + height a) \<and>
      in64 (width a + 1) \<and> in64 (height a + 1))"

text \<open>
  A box on a pixel grid of at most \<open>2^24\<close> in every direction. For such boxes every
  conversion, difference, sum and product in \<open>bbIntersectionOverUnion\<close> is an integer
  below \<open>2^53\<close> in magnitude, which \<open>float64\<close> holds exactly; only the final quotient is
  rounded, and rounding keeps a quotient between 0 and 1 there.
\<close>

definition pixelBox :: "detectedObject \<Rightarrow> bool" where
  "pixelBox a =
     (\<bar>left a\<bar> \<le> 2 ^ 24 \<and> \<bar>top_y a\<bar> \<le> 2 ^ 24 \<and> \<bar>width a\<bar> \<le> 2 ^ 24 \<and> \<bar>height a\<bar> \<le> 2 ^ 24)"

definition mkObject :: "real \<Rightarrow> int \<Rightarrow> int \<Rightarrow> int \<Rightarrow> int \<Rightarrow> string \<Rightarrow> detectedObject" where
  "mkObject c t l w h s =
     \<lparr>confidence = c, top_y = t, left = l, width = w, height = h, label = s\<rparr>"

text \<open>Width and height terms of the overlap rectangle, before clamping at 0.\<close>

definition overlapW :: "detectedObject \<Rightarrow> detectedObject \<Rightarrow> real" where
  "overlapW a b = min (real_of_int (left a + width a)) (real_of_int (left b + width b))
                    - max (real_of_int (left a)) (real_of_int (left b)) + 1"

definition overlapH :: "detectedObject \<Rightarrow> detectedObject \<Rightarrow> real" where
  "overlapH a b = min (real_of_int (top_y a + height a)) (real_of_int (top_y b + height b))
                    - max (real_of_int (top_y a)) (real_of_int (top_y b)) + 1"

section \<open>Capture loop (main.go)\<close>

text \<open>
  A frame (\<open>gocv.Mat\<close>) is known to the loop by its size, by \<open>Empty()\<close> and by its
  content, which is opaque here.
\<close>

record frame =
  fcols :: int
  frows :: int
  fempty :: bool
  pixels :: nat

text \<open>
  What the collaborators answer during one iteration of the \<open>for\<close> loop of
  \<open>detectFromCapture\<close>: the result of \<open>webcam.Read\<close> and the frame it stores, the output
  blobs of the network for the current frame, the outcome of the Catalog calls, and the
  key reported by \<open>window.WaitKey(1)\<close>.
\<close>

record iterEnv =
  readOk :: bool
  readFrame :: frame
  netOutput :: "real list list list"
  classIdErr :: bool
  insertResult :: "int option"
  notifyFatal :: bool
  key :: int

text \<open>
  The ways the loop ends: \<open>Read\<close> reports the device closed (\<open>wg.Done(); return\<close>), a key
  is pressed in the test window (\<open>wg.Done(); break\<close>), \<open>log.Fatal\<close> ends the whole process
  with \<open>os.Exit(1)\<close>, or a run-time panic.
\<close>

datatype exit = DeviceClosed | Cancelled | ProcessExit | Panicked

record iteration =
  imgAfter :: frame
  detection :: "detectedObject list option"
  stop :: "exit option"

text \<open>
  \<open>drawBoundingBoxes\<close> runs in test mode only. \<open>gocv.Rectangle\<close> and \<open>gocv.PutText\<close> draw the
  box and the label of every detected object into the pixels that \<open>img\<close> shares with the
  caller's frame, so the frame of the loop is changed; its size is not. What the two
  calls do to the content for one object is the parameter \<open>paintObj\<close>.
\<close>

definition drawBoundingBoxes ::
  "(nat \<Rightarrow> detectedObject \<Rightarrow> nat) \<Rightarrow> frame \<Rightarrow> detectedObject list \<Rightarrow> frame" where
  "drawBoundingBoxes paintObj img detectedObjects =
     img\<lparr>pixels := foldl paintObj (pixels img) detectedObjects\<rparr>"

definition loopBody ::
  "(nat \<Rightarrow> detectedObject \<Rightarrow> nat) \<Rightarrow> real \<Rightarrow> string list \<Rightarrow> bool \<Rightarrow> deviceSource \<Rightarrow> frame
     \<Rightarrow> iterEnv \<Rightarrow> iteration" where
  "loopBody paintObj thr classes production sourceType img e =
     (if (sourceType = STREAM \<or> sourceType = VIDEO) \<and> \<not> readOk e
      then \<lparr>imgAfter = img, detection = None, stop = Some DeviceClosed\<rparr>
      else
        let img' = (if sourceType = STREAM \<or> sourceType = VIDEO then readFrame e else img)
        in if (sourceType = STREAM \<or> sourceType = VIDEO) \<and> fempty img'
           then \<lparr>imgAfter = img', detection = None, stop = Some ProcessExit\<rparr>
           else
             case performDetection thr classes (fcols img') (frows img') (netOutput e) of
               None \<Rightarrow> \<lparr>imgAfter = img', detection = None, stop = Some Panicked\<rparr>
             | Some detectedObjects \<Rightarrow>
                 \<lparr>imgAfter =
                    (if production then img'
                     else drawBoundingBoxes paintObj img' detectedObjects),
                  detection = Some detectedObjects,
                  stop =
                    (if production then
                       (if length detectedObjects = 0 then None
                        else if classIdErr e then Some ProcessExit
                        else case insertResult e of
                               None \<Rightarrow> Some ProcessExit
                             | Some event \<Rightarrow>
                                 if 0 < event \<and> notifyFatal e then Some ProcessExit else None)
                     else (if 0 \<le> key e then Some Cancelled else None))\<rparr>)"

datatype loopState = Running | Terminated exit

text \<open>
  The loop, run for at most \<open>fuel\<close> iterations from iteration \<open>k\<close>; \<open>env k\<close> is the
  environment of iteration \<open>k\<close>. The result is the state reached, the frame held, and the
  detection results produced so far, one per call of \<open>performDetection\<close>. \<open>Running\<close> means
  that the loop has not ended within the fuel.
\<close>

fun runLoop ::
  "(nat \<Rightarrow> detectedObject \<Rightarrow> nat) \<Rightarrow> real \<Rightarrow> string list \<Rightarrow> bool \<Rightarrow> deviceSource
     \<Rightarrow> (nat \<Rightarrow> iterEnv) \<Rightarrow> nat \<Rightarrow> nat \<Rightarrow> frame
     \<Rightarrow> detectedObject list list \<Rightarrow> loopState \<times> frame \<times> detectedObject list list" where
  "runLoop paintObj thr classes production sourceType env 0 k img outs = (Running, img, outs)"
| "runLoop paintObj thr classes production sourceType env (Suc fuel) k img outs =
     (let it = loopBody paintObj thr classes production sourceType img (env k);
          outs' = (case detection it of None \<Rightarrow> outs | Some objs \<Rightarrow> outs @ [objs])
      in case stop it of
           Some x \<Rightarrow> (Terminated x, imgAfter it, outs')
         | None \<Rightarrow>
             runLoop paintObj thr classes production sourceType env fuel (Suc k) (imgAfter it)
               outs')"

text \<open>The frame after the boxes and labels of a sequence of detection results are drawn.\<close>

definition painted ::
  "(nat \<Rightarrow> detectedObject \<Rightarrow> nat) \<Rightarrow> frame \<Rightarrow> detectedObject list list \<Rightarrow> frame" where
  "painted paintObj img outs = img\<lparr>pixels := foldl (foldl paintObj) (pixels img) outs\<rparr>"

text \<open>An iteration in production mode that meets no fatal Catalog error and no panic.\<close>

definition quietProd :: "real \<Rightarrow> string list \<Rightarrow> frame \<Rightarrow> iterEnv \<Rightarrow> bool" where
  "quietProd thr classes img e =
     (case performDetection thr classes (fcols img) (frows img) (netOutput e) of
        None \<Rightarrow> False
      | Some objs \<Rightarrow>
          objs = [] \<or>
          (\<not> classIdErr e \<and>
           (case insertResult e of None \<Rightarrow> False | Some event \<Rightarrow> \<not> (0 < event \<and> notifyFatal e))))"

text \<open>An iteration in test mode that meets no panic and no key press.\<close>

definition quietTest :: "real \<Rightarrow> string list \<Rightarrow> frame \<Rightarrow> iterEnv \<Rightarrow> bool" where
  "quietTest thr classes img e =
     (performDetection thr classes (fcols img) (frows img) (netOutput e) \<noteq> None \<and> key e < 0)"

fun allBelow :: "nat \<Rightarrow> (nat \<Rightarrow> bool) \<Rightarrow> bool" where
  "allBelow 0 P = True"
| "allBelow (Suc n) P = (allBelow n P \<and> P n)"

section \<open>Connecting to a stream (main.go)\<close>

text \<open>
  For a STREAM source \<open>detectFromCapture\<close> starts a goroutine that calls
  \<open>gocv.OpenVideoCaptureWithAPI\<close>, and then waits in a \<open>select\<close> for the capture on the
  channel \<open>c1\<close> or for the deadline of five seconds, whichever comes first. The
  environment says whether the call returns an error, and whether it has returned when
  the deadline passes (for a call that never returns, \<open>openFails\<close> is \<open>False\<close>).

  On an error the goroutine prints a message, calls \<open>wg.Done()\<close> and returns: nothing is
  sent on \<open>c1\<close>, so the caller can only leave the \<open>select\<close> by the deadline, where it
  calls \<open>wg.Done()\<close> itself, prints, and returns. The result records the arm of the
  \<open>select\<close> that the caller takes, the calls of \<open>wg.Done()\<close> made by the goroutine and the
  caller together, and the messages in the order they are printed, for a process that
  other pipelines keep alive (\<open>main\<close> returns once the counter of the wait group is zero).
\<close>

record connectEnv =
  openFails :: bool
  beforeDeadline :: bool

datatype selectArm = CaptureReceived | DeadlineDone

datatype message = ErrorOpening | ConnectionSuccessful | ConnectionTimeouted

record connecting =
  arm :: selectArm
  wgDone :: nat
  printed :: "message list"

definition connectStream :: "connectEnv \<Rightarrow> connecting" where
  "connectStream e =
     (if openFails e then
        \<lparr>arm = DeadlineDone, wgDone = 2,
         printed = (if beforeDeadline e then [ErrorOpening, ConnectionTimeouted]
                    else [ConnectionTimeouted, ErrorOpening])\<rparr>
      else if beforeDeadline e then
        \<lparr>arm = CaptureReceived, wgDone = 0, printed = [ConnectionSuccessful]\<rparr>
      else \<lparr>arm = DeadlineDone, wgDone = 1, printed = [ConnectionTimeouted]\<rparr>)"

section \<open>Alert throttle (the Catalog code)\<close>

text \<open>
  The tables of \<open>init.sql\<close> the throttle reads and writes, with the columns it uses; a table
  is the list of its rows in the order the database returns them. Columns are taken to be
  non-null. A timestamp is a number of nanoseconds; the text form in which the database
  hands it back is not modelled.
\<close>

record observerRow =
  obs_id :: int
  email :: string

record streamRow =
  stream_id :: int
  address :: string

record subscriptionRow =
  sub_id :: int
  observer_id :: int
  sub_stream_id :: int
  alert :: bool
  alert_interval :: string

record alertRow =
  detection_event_id :: int
  subscription_id :: int
  created :: int

record database =
  observers :: "observerRow list"
  streams :: "streamRow list"
  subscriptions :: "subscriptionRow list"
  alerts :: "alertRow list"

text \<open>
  \<open>fmt.Sscanf(alertInterval, "%d%s", &intervalLength, &intervalType)\<close>, on the bytes of
  the text. Before each verb the scanner skips white space and fails on a newline; \<open>%d\<close>
  takes an optional sign and decimal digits, and fails without a digit or on a number
  outside 64 bits; \<open>%s\<close> takes the bytes up to the next white space. The caller ignores
  the error, so a variable that was not scanned keeps its zero value.

  \<open>spaceLen\<close> is the number of bytes of a white-space character at the head of a text
  (0 when there is none): the characters U+0009 to U+000D, U+0020, U+0085, U+00A0,
  U+1680, U+2000 to U+200A, U+2028, U+2029, U+202F, U+205F and U+3000, in UTF-8.
\<close>

definition isDigit :: "char \<Rightarrow> bool" where
  "isDigit c = (c \<in> set ''0123456789'')"

definition digitVal :: "char \<Rightarrow> int" where
  "digitVal c = int (length (takeWhile (\<lambda>d. d \<noteq> c) ''0123456789''))"

definition decimal :: "string \<Rightarrow> int" where
  "decimal ds = foldl (\<lambda>acc c. 10 * acc + digitVal c) 0 ds"

definition spaceLen :: "string \<Rightarrow> nat" where
  "spaceLen s =
     (case s of
        [] \<Rightarrow> 0
      | c # r \<Rightarrow>
          if c \<in> set [CHR 0x09, CHR 0x0A, CHR 0x0B, CHR 0x0C, CHR 0x0D, CHR 0x20] then 1
          else if c = CHR 0xC2 \<and> take 1 r \<in> set [[CHR 0x85], [CHR 0xA0]] then 2
          else if c = CHR 0xE1 \<and> take 2 r = [CHR 0x9A, CHR 0x80] then 3
          else if c = CHR 0xE2 \<and> take 1 r = [CHR 0x80] \<and>
                  take 1 (drop 1 r) \<in> set [[CHR 0x80], [CHR 0x81], [CHR 0x82], [CHR 0x83],
                    [CHR 0x84], [CHR 0x85], [CHR 0x86], [CHR 0x87], [CHR 0x88], [CHR 0x89],
                    [CHR 0x8A], [CHR 0xA8], [CHR 0xA9], [CHR 0xAF]] then 3
          else if c = CHR 0xE2 \<and> take 2 r = [CHR 0x81, CHR 0x9F] then 3
          else if c = CHR 0xE3 \<and> take 2 r = [CHR 0x80, CHR 0x80] then 3
          else 0)"

function skipSpace :: "string \<Rightarrow> string option" where
  "skipSpace s =
     (if s = [] then Some []
      else if hd s = CHR 0x0A then None
      else if spaceLen s = 0 then Some s
      else skipSpace (drop (spaceLen s) s))"
  by pat_completeness auto
termination
  by (relation "measure length") auto

declare skipSpace.simps [simp del]

fun token :: "string \<Rightarrow> string" where
  "token [] = []"
| "token (c # r) = (if 0 < spaceLen (c # r) then [] else c # token r)"

definition scanInterval :: "string \<Rightarrow> int \<times> string" where
  "scanInterval s =
     (case skipSpace s of
        None \<Rightarrow> (0, [])
      | Some s1 \<Rightarrow>
          let neg = (s1 \<noteq> [] \<and> hd s1 = CHR ''-'');
              s2 = (if s1 \<noteq> [] \<and> (hd s1 = CHR ''-'' \<or> hd s1 = CHR ''+'') then tl s1 else s1);
              ds = takeWhile isDigit s2;
              n = (if neg then - decimal ds else decimal ds)
          in if ds = [] \<or> \<not> in64 n then (0, [])
             else (n, case skipSpace (dropWhile isDigit s2) of
                        None \<Rightarrow> []
                      | Some s3 \<Rightarrow> token s3))"

text \<open>
  The first query of \<open>hasBeenAlerted\<close>: the subscription whose observer has the given
  email. The scalar subquery fails on two observers of that email and is null on none;
  either way, as when the observer has no subscription, the caller ends in \<open>log.Fatal\<close>
  (\<open>None\<close>). \<open>QueryRow\<close> keeps the first row.
\<close>

definition findSubscription :: "database \<Rightarrow> string \<Rightarrow> (int \<times> string) option" where
  "findSubscription db mail =
     (case filter (\<lambda>ob. email ob = mail) (observers db) of
        [ob] \<Rightarrow>
          (case filter (\<lambda>su. observer_id su = obs_id ob) (subscriptions db) of
             [] \<Rightarrow> None
           | su # _ \<Rightarrow> Some (sub_id su, alert_interval su))
      | _ \<Rightarrow> None)"

text \<open>\<open>SELECT created FROM alert WHERE subscription_id=$1 ORDER BY created DESC\<close>, first row.\<close>

definition lastAlert :: "database \<Rightarrow> int \<Rightarrow> int option" where
  "lastAlert db subscriptionId =
     (case filter (\<lambda>a. subscription_id a = subscriptionId) (alerts db) of
        [] \<Rightarrow> None
      | a # rest \<Rightarrow> Some (fold max (map created rest) (created a)))"

definition minuteNanos :: int where "minuteNanos = 60000000000"
definition hourNanos :: int where "hourNanos = 3600000000000"

text \<open>
  The \<open>switch\<close> on the interval type, entered when a previous alert exists: \<open>True\<close> is the
  \<open>return true\<close> of a branch. A \<open>time.Duration\<close> is a 64-bit count of nanoseconds, so the
  product wraps around. \<open>captureTime.AddDate(0, 0, k)\<close> moves the wall clock of the zone
  Europe/Helsinki by \<open>k\<close> calendar days, which are 23 or 25 hours long where the clocks
  change; the calendar of the zone is the parameter \<open>addDate\<close>, the instant
  \<open>addDate t k\<close> being \<open>t.AddDate(0, 0, k)\<close>.
\<close>

definition throttled ::
  "(int \<Rightarrow> int \<Rightarrow> int) \<Rightarrow> string \<Rightarrow> int \<Rightarrow> int \<Rightarrow> int \<Rightarrow> bool" where
  "throttled addDate intervalType intervalLength lastCaptureTime captureTime =
     (if intervalType = ''m''
        then captureTime + neg64 (mul64 minuteNanos intervalLength) < lastCaptureTime
      else if intervalType = ''h''
        then captureTime + neg64 (mul64 hourNanos intervalLength) < lastCaptureTime
      else if intervalType = ''d''
        then addDate captureTime (neg64 intervalLength) < lastCaptureTime
      else True)"

definition insertAlert :: "database \<Rightarrow> int \<Rightarrow> int \<Rightarrow> int \<Rightarrow> database" where
  "insertAlert db event subscriptionId captureTime =
     db\<lparr>alerts := alerts db @
        [\<lparr>detection_event_id = event, subscription_id = subscriptionId, created = captureTime\<rparr>]\<rparr>"

text \<open>
  \<open>hasBeenAlerted\<close> at the clock reading \<open>now\<close>: \<open>None\<close> is \<open>log.Fatal\<close>; otherwise the
  returned flag (\<open>True\<close> suppresses the notification) and the database afterwards.
\<close>

definition hasBeenAlerted ::
  "(int \<Rightarrow> int \<Rightarrow> int) \<Rightarrow> database \<Rightarrow> int \<Rightarrow> string \<Rightarrow> int \<Rightarrow> (bool \<times> database) option" where
  "hasBeenAlerted addDate db now mail event =
     (case findSubscription db mail of
        None \<Rightarrow> None
      | Some (subscriptionId, alertInterval) \<Rightarrow>
          (case scanInterval alertInterval of (intervalLength, intervalType) \<Rightarrow>
             (case lastAlert db subscriptionId of
                Some lastCaptureTime \<Rightarrow>
                  if throttled addDate intervalType intervalLength lastCaptureTime now
                  then Some (True, db)
                  else Some (False, insertAlert db event subscriptionId now)
              | None \<Rightarrow> Some (False, insertAlert db event subscriptionId now))))"

text \<open>
  The query of \<open>notifyObservers\<close>: the emails of the observers with an alerting
  subscription to the stream of the given address (\<open>None\<close>: the scalar subquery finds two
  streams of that address, and the caller ends in \<open>log.Fatal\<close>).
\<close>

definition subscribedEmails :: "database \<Rightarrow> string \<Rightarrow> string list option" where
  "subscribedEmails db deviceID =
     (case filter (\<lambda>st. address st = deviceID) (streams db) of
        [] \<Rightarrow> Some []
      | [st] \<Rightarrow>
          Some (map email
            (filter (\<lambda>ob. \<exists>su\<in>set (subscriptions db).
                       observer_id su = obs_id ob \<and> sub_stream_id su = stream_id st \<and> alert su)
               (observers db)))
      | _ \<Rightarrow> None)"

text \<open>
  The loop of \<open>notifyObservers\<close> over the emails: the \<open>k\<close>-th evaluation of the throttle
  reads the clock as \<open>clock k\<close>; the emails that are sent a mail are collected (composing
  and sending the mail is left to the Notifier).
\<close>

fun notifyLoop ::
  "(int \<Rightarrow> int \<Rightarrow> int) \<Rightarrow> database \<Rightarrow> (nat \<Rightarrow> int) \<Rightarrow> nat \<Rightarrow> int \<Rightarrow> string list \<Rightarrow> string list
     \<Rightarrow> (string list \<times> database) option" where
  "notifyLoop addDate db clock k event [] sent = Some (sent, db)"
| "notifyLoop addDate db clock k event (mail # mails) sent =
     (case hasBeenAlerted addDate db (clock k) mail event of
        None \<Rightarrow> None
      | Some (alerted, db') \<Rightarrow>
          notifyLoop addDate db' clock (Suc k) event mails
            (if alerted then sent else sent @ [mail]))"

definition notifyObservers ::
  "(int \<Rightarrow> int \<Rightarrow> int) \<Rightarrow> database \<Rightarrow> (nat \<Rightarrow> int) \<Rightarrow> string \<Rightarrow> int
     \<Rightarrow> (string list \<times> database) option" where
  "notifyObservers addDate db clock deviceID event =
     (case subscribedEmails db deviceID of
        None \<Rightarrow> None
      | Some mails \<Rightarrow> notifyLoop addDate db clock 0 event mails [])"

section \<open>Reference notions and sample data\<close>




definition alertAt :: "int \<Rightarrow> int \<Rightarrow> int \<Rightarrow> alertRow" where
  "alertAt event sid t = \<lparr>detection_event_id = event, subscription_id = sid, created = t\<rparr>"

text \<open>One observer subscribed to two streams.\<close>

definition twoStreams :: "alertRow list \<Rightarrow> database" where
  "twoStreams as =
     \<lparr>observers = [\<lparr>obs_id = 1, email = ''test@mail''\<rparr>],
      streams = [\<lparr>stream_id = 1, address = ''rtsp://one''\<rparr>,
                 \<lparr>stream_id = 2, address = ''rtsp://two''\<rparr>],
      subscriptions =
        [\<lparr>sub_id = 1, observer_id = 1, sub_stream_id = 1, alert = True, alert_interval = ''15m''\<rparr>,
         \<lparr>sub_id = 2, observer_id = 1, sub_stream_id = 2, alert = True, alert_interval = ''15m''\<rparr>],
      alerts = as\<rparr>"

text \<open>A frame of 100 by 100 pixels, and an iteration in which the network reports one bird.\<close>

definition stillFrame :: frame where
  "stillFrame = \<lparr>fcols = 100, frows = 100, fempty = False, pixels = 1\<rparr>"

definition oneBird :: iterEnv where
  "oneBird = \<lparr>readOk = True, readFrame = stillFrame,
     netOutput = [[[1 / 2, 1 / 2, 1 / 2, 1 / 2, 0, 9 / 10]]],
     classIdErr = False, insertResult = Some 1, notifyFatal = False, key = - 1\<rparr>"

text \<open>A drawing that changes the content with every object drawn.\<close>

definition countPaint :: "nat \<Rightarrow> detectedObject \<Rightarrow> nat" where
  "countPaint p obj = Suc p"

section \<open>Auxiliary facts\<close>

lemmas geo_defs = bbIntersectionOverUnion_def interArea_def boxArea_def boxOf_def mkObject_def
  add64_def sub64_def wrap64_def fdiv_def

lemma hasSuffix_iff: "hasSuffix s suf \<longleftrightarrow> (\<exists>p. s = p @ suf)"
  unfolding hasSuffix_def
proof
  assume h: "length suf \<le> length s \<and> drop (length s - length suf) s = suf"
  then have "s = take (length s - length suf) s @ suf"
    by (metis append_take_drop_id)
  then show "\<exists>p. s = p @ suf" by blast
next
  assume "\<exists>p. s = p @ suf"
  then show "length suf \<le> length s \<and> drop (length s - length suf) s = suf" by auto
qed

lemma hasPrefix_iff: "hasPrefix s pre \<longleftrightarrow> (\<exists>r. s = pre @ r)"
  unfolding hasPrefix_def
proof
  assume h: "length pre \<le> length s \<and> take (length pre) s = pre"
  then have "s = pre @ drop (length pre) s"
    by (metis append_take_drop_id)
  then show "\<exists>r. s = pre @ r" by blast
next
  assume "\<exists>r. s = pre @ r"
  then show "length pre \<le> length s \<and> take (length pre) s = pre" by auto
qed

lemma classScan_le:
  "\<forall>y\<in>set ys. y \<le> mx \<Longrightarrow> classScan ys i res mx = (res, mx)"
  by (induction ys arbitrary: i) auto

lemma classScan_first:
  "\<exists>y\<in>set ys. mx < y \<Longrightarrow> classScan ys i res mx = (r, m) \<Longrightarrow>
     i \<le> r \<and> r < i + length ys \<and> ys ! (r - i) = m \<and> (\<forall>j < r - i. ys ! j < m) \<and>
     (\<forall>y\<in>set ys. y \<le> m) \<and> mx < m"
proof (induction ys arbitrary: i res mx)
  case Nil
  then show ?case by simp
next
  case (Cons y ys)
  show ?case
  proof (cases "mx < y")
    case True
    note my = this
    have run: "classScan ys (Suc i) i y = (r, m)" using Cons.prems(2) my by simp
    show ?thesis
    proof (cases "\<exists>z\<in>set ys. y < z")
      case True
      from Cons.IH[OF True run]
      have ih: "Suc i \<le> r" "r < Suc i + length ys" "ys ! (r - Suc i) = m"
        "\<forall>j < r - Suc i. ys ! j < m" "\<forall>z\<in>set ys. z \<le> m" "y < m" by auto
      have idx: "r - i = Suc (r - Suc i)" using ih(1) by simp
      have "\<forall>j < r - i. (y # ys) ! j < m"
      proof (intro allI impI)
        fix j assume "j < r - i"
        then show "(y # ys) ! j < m"
          using ih(4) ih(6) idx by (cases j) auto
      qed
      then show ?thesis using ih idx my by auto
    next
      case False
      then have "\<forall>z\<in>set ys. z \<le> y" by auto
      then have "classScan ys (Suc i) i y = (i, y)" by (rule classScan_le)
      with run have "r = i" "m = y" by auto
      then show ?thesis using False my by auto
    qed
  next
    case False
    note nmy = this
    have run: "classScan ys (Suc i) res mx = (r, m)" using Cons.prems(2) nmy by simp
    have ex: "\<exists>z\<in>set ys. mx < z" using Cons.prems(1) nmy by auto
    from Cons.IH[OF ex run]
    have ih: "Suc i \<le> r" "r < Suc i + length ys" "ys ! (r - Suc i) = m"
      "\<forall>j < r - Suc i. ys ! j < m" "\<forall>z\<in>set ys. z \<le> m" "mx < m" by auto
    have idx: "r - i = Suc (r - Suc i)" using ih(1) by simp
    have "\<forall>j < r - i. (y # ys) ! j < m"
    proof (intro allI impI)
      fix j assume "j < r - i"
      then show "(y # ys) ! j < m"
        using ih(4) ih(6) idx nmy by (cases j) auto
    qed
    then show ?thesis using ih idx nmy by auto
  qed
qed


lemma classScan_Max:
  assumes "\<exists>y\<in>set ys. mx < y" and "classScan ys i res mx = (r, m)"
  shows "m = Max (set ys)"
proof -
  from classScan_first[OF assms]
  have a: "r < i + length ys" "i \<le> r" "ys ! (r - i) = m" "\<forall>y\<in>set ys. y \<le> m" by auto
  then have "m \<in> set ys" by (metis add.commute less_diff_conv2 nth_mem)
  moreover have "finite (set ys)" by simp
  ultimately show ?thesis using a(4) by (metis Max_eqI)
qed

lemma launchLoop_eq:
  "launchLoop k ids =
     map (\<lambda>(i, d). (getDeviceType d, d, i))
       (filter (\<lambda>(i, d). 0 \<le> getDeviceType d) (zip [k ..< k + length ids] ids))"
proof (induction ids arbitrary: k)
  case Nil
  show ?case by simp
next
  case (Cons d ids)
  have "[k ..< Suc (k + length ids)] = k # [Suc k ..< Suc (k + length ids)]"
    by (rule upt_conv_Cons) simp
  then show ?case using Cons.IH[of "Suc k"] by (simp add: Let_def)
qed

lemma launchLoop_mem:
  "(t, d, i) \<in> set (launchLoop k ids) \<Longrightarrow> t = getDeviceType d \<and> 0 \<le> t \<and> d \<in> set ids"
  by (induction ids arbitrary: k) (auto simp: Let_def split: if_splits)

lemma wrap64_id: "in64 x \<Longrightarrow> wrap64 x = x"
proof -
  assume "in64 x"
  then have "0 \<le> x + 2 ^ 63" "x + 2 ^ 63 < 2 ^ 64" by (simp_all add: in64_def)
  then have "(x + 2 ^ 63) mod 2 ^ 64 = x + 2 ^ 63" by (rule mod_pos_pos_trivial)
  then show ?thesis by (simp add: wrap64_def)
qed

lemma pixelBox_fits: "pixelBox a \<Longrightarrow> fitsInt64 a"
  by (auto simp: pixelBox_def fitsInt64_def in64_def)

lemma boxOf_fits:
  "fitsInt64 a \<Longrightarrow> boxOf a = (left a, top_y a, left a + width a, top_y a + height a)"
  by (simp add: boxOf_def add64_def fitsInt64_def wrap64_id)

lemma boxArea_fits:
  "fitsInt64 a \<Longrightarrow> boxArea a = real_of_int (width a + 1) * real_of_int (height a + 1)"
  by (simp add: boxArea_def boxOf_fits add64_def sub64_def fitsInt64_def wrap64_id)


lemma interArea_fits:
  "fitsInt64 a \<Longrightarrow> fitsInt64 b \<Longrightarrow>
     interArea a b = max 0 (overlapW a b) * max 0 (overlapH a b)"
  by (simp add: interArea_def boxOf_fits overlapW_def overlapH_def Let_def)

lemma interArea_nonneg: "0 \<le> interArea a b"
  by (simp add: interArea_def Let_def split: prod.splits)

lemma overlapW_le: "overlapW a b \<le> real_of_int (width a + 1) \<and> overlapW a b \<le> real_of_int (width b + 1)"
  unfolding overlapW_def by (simp add: min_def max_def)

lemma overlapH_le: "overlapH a b \<le> real_of_int (height a + 1) \<and> overlapH a b \<le> real_of_int (height b + 1)"
  unfolding overlapH_def by (simp add: min_def max_def)

lemma interArea_le_boxArea:
  assumes fa: "fitsInt64 a" and fb: "fitsInt64 b" and pos: "0 < interArea a b"
  shows "interArea a b \<le> boxArea a \<and> interArea a b \<le> boxArea b"
proof -
  let ?w = "overlapW a b" and ?h = "overlapH a b"
  have ia: "interArea a b = max 0 ?w * max 0 ?h" by (rule interArea_fits[OF fa fb])
  have w0: "0 < ?w"
  proof (rule ccontr)
    assume "\<not> 0 < ?w"
    then have "max 0 ?w = 0" by simp
    with ia pos show False by simp
  qed
  have h0: "0 < ?h"
  proof (rule ccontr)
    assume "\<not> 0 < ?h"
    then have "max 0 ?h = 0" by simp
    with ia pos show False by simp
  qed
  have eq: "interArea a b = ?w * ?h" using ia w0 h0 by simp
  have "?w * ?h \<le> real_of_int (width a + 1) * real_of_int (height a + 1)"
    using overlapW_le[of a b] overlapH_le[of a b] w0 h0 by (intro mult_mono) auto
  moreover have "?w * ?h \<le> real_of_int (width b + 1) * real_of_int (height b + 1)"
    using overlapW_le[of a b] overlapH_le[of a b] w0 h0 by (intro mult_mono) auto
  ultimately show ?thesis by (simp add: eq boxArea_fits[OF fa] boxArea_fits[OF fb])
qed

lemma iou_range:
  assumes fa: "fitsInt64 a" and fb: "fitsInt64 b"
  shows "(bbIntersectionOverUnion a b = NaN \<and> interArea a b = 0 \<and> boxArea a + boxArea b = 0) \<or>
         (\<exists>r. bbIntersectionOverUnion a b = Finite r \<and> 0 \<le> r \<and> r \<le> 1)"
proof (cases "0 < interArea a b")
  case True
  from interArea_le_boxArea[OF fa fb True]
  have le: "interArea a b \<le> boxArea a" "interArea a b \<le> boxArea b" by auto
  let ?d = "boxArea a + boxArea b - interArea a b"
  have d: "interArea a b \<le> ?d" "0 < ?d" using le True by auto
  have "bbIntersectionOverUnion a b = Finite (interArea a b / ?d)"
    using d by (simp add: bbIntersectionOverUnion_def fdiv_def)
  moreover have "0 \<le> interArea a b / ?d" using True d by simp
  moreover have "interArea a b / ?d \<le> 1" using d by simp
  ultimately show ?thesis by blast
next
  case False
  then have z: "interArea a b = 0" using interArea_nonneg[of a b] by simp
  show ?thesis by (simp add: bbIntersectionOverUnion_def fdiv_def z)
qed

lemma iou_defined:
  assumes fa: "fitsInt64 a" and fb: "fitsInt64 b"
    and dims: "0 \<le> width a" "0 \<le> height a" "0 \<le> width b" "0 \<le> height b"
  shows "0 < boxArea a + boxArea b - interArea a b"
proof -
  have A: "1 \<le> boxArea a"
  proof -
    have "1 * 1 \<le> real_of_int (width a + 1) * real_of_int (height a + 1)"
      using dims by (intro mult_mono) auto
    then show ?thesis by (simp add: boxArea_fits[OF fa])
  qed
  have B: "1 \<le> boxArea b"
  proof -
    have "1 * 1 \<le> real_of_int (width b + 1) * real_of_int (height b + 1)"
      using dims by (intro mult_mono) auto
    then show ?thesis by (simp add: boxArea_fits[OF fb])
  qed
  show ?thesis
  proof (cases "0 < interArea a b")
    case True
    from interArea_le_boxArea[OF fa fb True] A B show ?thesis by auto
  next
    case False
    then have "interArea a b = 0" using interArea_nonneg[of a b] by simp
    with A B show ?thesis by simp
  qed
qed

lemma interArea_sym: "interArea a b = interArea b a"
  by (simp add: interArea_def Let_def max.commute min.commute split: prod.splits)

lemma iou_sym: "bbIntersectionOverUnion a b = bbIntersectionOverUnion b a"
  by (simp add: bbIntersectionOverUnion_def interArea_sym[of a b] add.commute)

lemma overlapLoop_eq:
  "overlapLoop cur ds n =
     (map (\<lambda>obj. if fgt (bbIntersectionOverUnion cur obj) (7 / 10) \<and> confidence obj < confidence cur
                 then cur else obj) ds,
      n \<and> (\<forall>obj\<in>set ds. \<not> fgt (bbIntersectionOverUnion cur obj) (7 / 10)))"
  by (induction ds arbitrary: n) (auto simp: Let_def)

lemma fuseStep_overlap:
  "\<exists>obj\<in>set ds. fgt (bbIntersectionOverUnion cur obj) (7 / 10) \<Longrightarrow>
   fuseStep ds cur =
     map (\<lambda>obj. if fgt (bbIntersectionOverUnion cur obj) (7 / 10) \<and> confidence obj < confidence cur
                 then cur else obj) ds"
  by (auto simp: fuseStep_def overlapLoop_eq)

lemma fuseStep_new:
  assumes "\<forall>obj\<in>set ds. \<not> fgt (bbIntersectionOverUnion cur obj) (7 / 10)"
  shows "fuseStep ds cur = ds @ [cur]"
proof -
  have "map (\<lambda>obj. if fgt (bbIntersectionOverUnion cur obj) (7 / 10) \<and> confidence obj < confidence cur
                 then cur else obj) ds = ds"
    using assms by (induction ds) auto
  then show ?thesis using assms by (simp add: fuseStep_def overlapLoop_eq)
qed

lemma fuse_snoc: "fuse (cands @ [c]) = fuseStep (fuse cands) c"
  by (simp add: fuse_def)

lemma thresholded_Cons:
  "thresholded thr cl fc fr (row # rows) =
     (case rowCandidate thr cl fc fr row of Some (Some c) \<Rightarrow> [c] | _ \<Rightarrow> []) @ thresholded thr cl fc fr rows"
  by (simp add: thresholded_def)

lemma thresholded_Nil: "thresholded thr cl fc fr [] = []"
  by (simp add: thresholded_def)

lemma thresholded_append:
  "thresholded thr cl fc fr (xs @ ys) = thresholded thr cl fc fr xs @ thresholded thr cl fc fr ys"
  by (simp add: thresholded_def)

lemma detectRows_eq:
  "\<forall>row\<in>set rows. rowCandidate thr cl fc fr row \<noteq> None \<Longrightarrow>
   detectRows thr cl fc fr ds rows = Some (foldl fuseStep ds (thresholded thr cl fc fr rows))"
  by (induction rows arbitrary: ds) (auto simp: thresholded_Cons thresholded_Nil split: option.splits)

lemma detectOutputs_eq:
  "\<forall>row\<in>set (concat outs). rowCandidate thr cl fc fr row \<noteq> None \<Longrightarrow>
   detectOutputs thr cl fc fr ds outs = Some (foldl fuseStep ds (thresholded thr cl fc fr (concat outs)))"
  by (induction outs arbitrary: ds) (auto simp: thresholded_append thresholded_Nil detectRows_eq)

lemma foldl_separated:
  "separated xs \<Longrightarrow>
   \<forall>a\<in>set acc. \<forall>y\<in>set xs. \<not> fgt (bbIntersectionOverUnion y a) (7 / 10) \<Longrightarrow>
   foldl fuseStep acc xs = acc @ xs"
proof (induction xs arbitrary: acc)
  case Nil
  show ?case by simp
next
  case (Cons x xs)
  have step: "fuseStep acc x = acc @ [x]"
    using Cons.prems(2) by (intro fuseStep_new) auto
  have sep: "separated xs" using Cons.prems(1) by simp
  have "\<forall>a\<in>set (acc @ [x]). \<forall>y\<in>set xs. \<not> fgt (bbIntersectionOverUnion y a) (7 / 10)"
    using Cons.prems by auto
  from Cons.IH[OF sep this] show ?case by (simp add: step)
qed

lemma length_fuseStep_le: "length (fuseStep acc x) \<le> Suc (length acc)"
  by (cases "\<exists>obj\<in>set acc. fgt (bbIntersectionOverUnion x obj) (7 / 10)")
     (simp_all add: fuseStep_overlap fuseStep_new)

lemma length_foldl_fuseStep_le: "length (foldl fuseStep acc xs) \<le> length acc + length xs"
proof (induction xs arbitrary: acc)
  case Nil
  show ?case by simp
next
  case (Cons x xs)
  have "length (foldl fuseStep (fuseStep acc x) xs) \<le> length (fuseStep acc x) + length xs"
    by (rule Cons.IH)
  also have "\<dots> \<le> Suc (length acc) + length xs"
    using length_fuseStep_le[of acc x] by simp
  finally show ?case by simp
qed

lemma foldl_fixed_separated:
  "foldl fuseStep acc xs = acc @ xs \<Longrightarrow>
   separated xs \<and> (\<forall>a\<in>set acc. \<forall>y\<in>set xs. \<not> fgt (bbIntersectionOverUnion y a) (7 / 10))"
proof (induction xs arbitrary: acc)
  case Nil
  show ?case by simp
next
  case (Cons x xs)
  have nov: "\<forall>a\<in>set acc. \<not> fgt (bbIntersectionOverUnion x a) (7 / 10)"
  proof (rule ccontr)
    assume "\<not> (\<forall>a\<in>set acc. \<not> fgt (bbIntersectionOverUnion x a) (7 / 10))"
    then have "\<exists>obj\<in>set acc. fgt (bbIntersectionOverUnion x obj) (7 / 10)" by simp
    then have "length (fuseStep acc x) = length acc" by (simp add: fuseStep_overlap)
    with length_foldl_fuseStep_le[of "fuseStep acc x" xs]
    have "length (foldl fuseStep acc (x # xs)) \<le> length acc + length xs" by simp
    with Cons.prems show False by simp
  qed
  then have step: "fuseStep acc x = acc @ [x]" by (rule fuseStep_new)
  with Cons.prems have "foldl fuseStep (acc @ [x]) xs = (acc @ [x]) @ xs" by simp
  from Cons.IH[OF this]
  have ih: "separated xs"
    "\<forall>a\<in>set (acc @ [x]). \<forall>y\<in>set xs. \<not> fgt (bbIntersectionOverUnion y a) (7 / 10)" by auto
  show ?case using ih nov by auto
qed

lemma loopBody_image_quietProd:
  "quietProd thr cl img e \<Longrightarrow>
   \<exists>objs. loopBody P thr cl True IMAGE img e =
      \<lparr>imgAfter = img, detection = Some objs, stop = None\<rparr>"
  by (auto simp: quietProd_def loopBody_def IMAGE_def STREAM_def VIDEO_def
      split: option.splits)

lemma loopBody_image_quietTest:
  "quietTest thr cl img e \<Longrightarrow> fcols f = fcols img \<Longrightarrow> frows f = frows img \<Longrightarrow>
   \<exists>objs. loopBody P thr cl False IMAGE f e =
      \<lparr>imgAfter = drawBoundingBoxes P f objs, detection = Some objs, stop = None\<rparr>"
  by (auto simp: quietTest_def loopBody_def IMAGE_def STREAM_def VIDEO_def
      split: option.splits)

lemma loopBody_image_key:
  "performDetection thr cl (fcols img) (frows img) (netOutput e) \<noteq> None \<Longrightarrow> 0 \<le> key e \<Longrightarrow>
   fcols f = fcols img \<Longrightarrow> frows f = frows img \<Longrightarrow>
   \<exists>objs. loopBody P thr cl False IMAGE f e =
      \<lparr>imgAfter = drawBoundingBoxes P f objs, detection = Some objs, stop = Some Cancelled\<rparr>"
  by (auto simp: loopBody_def IMAGE_def STREAM_def VIDEO_def split: option.splits)

lemma painted_Nil: "painted P img [] = img"
  by (simp add: painted_def)

lemma painted_snoc:
  "drawBoundingBoxes P (painted P img outs) objs = painted P img (outs @ [objs])"
  by (simp add: painted_def drawBoundingBoxes_def)

lemma painted_size: "fcols (painted P img outs) = fcols img \<and> frows (painted P img outs) = frows img"
  by (simp add: painted_def)

lemma runLoop_continues:
  assumes cont: "\<And>e. Q e \<Longrightarrow> \<exists>objs. loopBody P thr cl pr st img e = \<lparr>imgAfter = img, detection = Some objs, stop = None\<rparr>"
    and q: "\<forall>j. k \<le> j \<and> j < k + n \<longrightarrow> Q (env j)"
  shows "\<exists>outs'. runLoop P thr cl pr st env n k img outs = (Running, img, outs') \<and>
             length outs' = length outs + n"
  using q
proof (induction n arbitrary: k outs)
  case 0
  show ?case by simp
next
  case (Suc n)
  have "Q (env k)" using Suc.prems by simp
  from cont[OF this] obtain objs where
    lb: "loopBody P thr cl pr st img (env k) = \<lparr>imgAfter = img, detection = Some objs, stop = None\<rparr>"
    by blast
  have "\<forall>j. Suc k \<le> j \<and> j < Suc k + n \<longrightarrow> Q (env j)" using Suc.prems by simp
  from Suc.IH[OF this, where outs = "outs @ [objs]"] show ?case by (simp add: lb)
qed

lemma runLoop_test_continues:
  assumes q: "\<forall>j. k \<le> j \<and> j < k + n \<longrightarrow> quietTest thr cl img (env j)"
  shows "\<exists>outs'. runLoop P thr cl False IMAGE env n k (painted P img outs) outs =
               (Running, painted P img outs', outs') \<and>
             length outs' = length outs + n"
  using q
proof (induction n arbitrary: k outs)
  case 0
  show ?case by simp
next
  case (Suc n)
  have "quietTest thr cl img (env k)" using Suc.prems by simp
  from loopBody_image_quietTest[OF this, of "painted P img outs" P] painted_size[of P img outs]
  obtain objs where
    lb: "loopBody P thr cl False IMAGE (painted P img outs) (env k) =
           \<lparr>imgAfter = painted P img (outs @ [objs]), detection = Some objs, stop = None\<rparr>"
    by (auto simp: painted_snoc)
  have "\<forall>j. Suc k \<le> j \<and> j < Suc k + n \<longrightarrow> quietTest thr cl img (env j)"
    using Suc.prems by simp
  from Suc.IH[OF this, where outs = "outs @ [objs]"] show ?case by (simp add: lb)
qed

lemma runLoop_test_stops:
  assumes q: "\<forall>j. k \<le> j \<and> j < k + m \<longrightarrow> quietTest thr cl img (env j)"
    and d: "performDetection thr cl (fcols img) (frows img) (netOutput (env (k + m))) \<noteq> None"
    and ky: "0 \<le> key (env (k + m))"
    and mn: "m < n"
  shows "\<exists>outs'. runLoop P thr cl False IMAGE env n k (painted P img outs) outs =
               (Terminated Cancelled, painted P img outs', outs') \<and>
             length outs' = length outs + Suc m"
  using q d ky mn
proof (induction m arbitrary: k outs n)
  case 0
  then obtain n' where n: "n = Suc n'" by (cases n) auto
  from 0 have d0: "performDetection thr cl (fcols img) (frows img) (netOutput (env k)) \<noteq> None"
    and k0: "0 \<le> key (env k)" by simp_all
  from loopBody_image_key[OF d0 k0, of "painted P img outs" P] painted_size[of P img outs]
  obtain objs where
    lb: "loopBody P thr cl False IMAGE (painted P img outs) (env k) =
           \<lparr>imgAfter = painted P img (outs @ [objs]), detection = Some objs,
            stop = Some Cancelled\<rparr>"
    by (auto simp: painted_snoc)
  show ?case by (simp add: n lb)
next
  case (Suc m)
  then obtain n' where n: "n = Suc n'" and mn': "m < n'" by (cases n) auto
  have "quietTest thr cl img (env k)" using Suc.prems by simp
  from loopBody_image_quietTest[OF this, of "painted P img outs" P] painted_size[of P img outs]
  obtain objs where
    lb: "loopBody P thr cl False IMAGE (painted P img outs) (env k) =
           \<lparr>imgAfter = painted P img (outs @ [objs]), detection = Some objs, stop = None\<rparr>"
    by (auto simp: painted_snoc)
  have q': "\<forall>j. Suc k \<le> j \<and> j < Suc k + m \<longrightarrow> quietTest thr cl img (env j)"
    using Suc.prems by simp
  have d': "performDetection thr cl (fcols img) (frows img) (netOutput (env (Suc k + m))) \<noteq> None"
    using Suc.prems(2) by simp
  have k': "0 \<le> key (env (Suc k + m))" using Suc.prems(3) by simp
  from Suc.IH[OF q' d' k' mn', where outs = "outs @ [objs]"] show ?case by (simp add: lb n)
qed

lemma oneBird_detect:
  "performDetection (3 / 4) [''osprey''] 100 100 [[[1 / 2, 1 / 2, 1 / 2, 1 / 2, 0, 9 / 10]]] =
     Some [mkObject (9 / 10) 25 25 50 50 ''osprey - 90%'']"
  by code_simp









lemma scan_15m: "scanInterval ''15m'' = (15, ''m'')"
  by code_simp








lemma find_twoStreams: "findSubscription (twoStreams as) ''test@mail'' = Some (1, ''15m'')"
  by (simp add: findSubscription_def twoStreams_def)

lemma emails_twoStreams: "subscribedEmails (twoStreams as) ''rtsp://two'' = Some [''test@mail'']"
  by (simp add: subscribedEmails_def twoStreams_def)

lemma insert_twoStreams:
  "insertAlert (twoStreams as) event sid t = twoStreams (as @ [alertAt event sid t])"
  by (simp add: insertAlert_def twoStreams_def alertAt_def)

section \<open>Fusion pass\<close>

text \<open>
  C1. The fusion pass of \<open>performDetection\<close> handles the candidates that clear the
  confidence threshold in arrival order. A candidate that overlaps some accumulated entry
  above 0.7 is not appended: the list keeps its length, and exactly the overlapping
  entries of strictly smaller confidence are replaced by it. A candidate that overlaps no
  entry above 0.7 is appended. Two candidates of overlap above 0.7 with confidences 0.8
  and then 0.95 fuse into the single object of confidence 0.95.
\<close>

theorem performDetection_fuses_in_arrival_order:
  "((\<forall>row\<in>set (concat results). rowCandidate thr cl fc fr row \<noteq> None) \<longrightarrow>
      performDetection thr cl fc fr results = Some (fuse (thresholded thr cl fc fr (concat results)))) \<and>
   fuse (cands @ [cur]) = fuseStep (fuse cands) cur \<and>
   ((\<exists>obj\<in>set ds. fgt (bbIntersectionOverUnion cur obj) (7 / 10)) \<longrightarrow>
      length (fuseStep ds cur) = length ds \<and>
      (\<forall>i<length ds. fuseStep ds cur ! i =
         (if fgt (bbIntersectionOverUnion cur (ds ! i)) (7 / 10) \<and> confidence (ds ! i) < confidence cur
          then cur else ds ! i))) \<and>
   ((\<forall>obj\<in>set ds. \<not> fgt (bbIntersectionOverUnion cur obj) (7 / 10)) \<longrightarrow>
      fuseStep ds cur = ds @ [cur]) \<and>
   (fgt (bbIntersectionOverUnion c1 c2) (7 / 10) \<and> confidence c1 = 8 / 10 \<and> confidence c2 = 95 / 100 \<longrightarrow>
      fuse [c1, c2] = [c2])"
proof (intro conjI impI)
  assume "\<forall>row\<in>set (concat results). rowCandidate thr cl fc fr row \<noteq> None"
  then show "performDetection thr cl fc fr results = Some (fuse (thresholded thr cl fc fr (concat results)))"
    by (simp add: performDetection_def fuse_def detectOutputs_eq)
next
  show "fuse (cands @ [cur]) = fuseStep (fuse cands) cur" by (rule fuse_snoc)
next
  assume "\<exists>obj\<in>set ds. fgt (bbIntersectionOverUnion cur obj) (7 / 10)"
  then show "length (fuseStep ds cur) = length ds" by (simp add: fuseStep_overlap)
next
  assume "\<exists>obj\<in>set ds. fgt (bbIntersectionOverUnion cur obj) (7 / 10)"
  then show "\<forall>i<length ds. fuseStep ds cur ! i =
         (if fgt (bbIntersectionOverUnion cur (ds ! i)) (7 / 10) \<and> confidence (ds ! i) < confidence cur
          then cur else ds ! i)" by (simp add: fuseStep_overlap)
next
  assume "\<forall>obj\<in>set ds. \<not> fgt (bbIntersectionOverUnion cur obj) (7 / 10)"
  then show "fuseStep ds cur = ds @ [cur]" by (rule fuseStep_new)
next
  assume h: "fgt (bbIntersectionOverUnion c1 c2) (7 / 10) \<and> confidence c1 = 8 / 10 \<and> confidence c2 = 95 / 100"
  then have ov: "fgt (bbIntersectionOverUnion c2 c1) (7 / 10)" by (simp add: iou_sym[of c2 c1])
  have "fuseStep [c1] c2 = [c2]" using ov h by (simp add: fuseStep_overlap)
  then show "fuse [c1, c2] = [c2]" by (simp add: fuse_def fuseStep_def)
qed

theorem performDetection_fuses_in_arrival_order_witness:
  "list_all (\<lambda>row. rowCandidate (3 / 4) [''osprey''] 100 100 row \<noteq> None)
     (concat [[[1 / 2, 1 / 2, 1 / 2, 1 / 2, 0, 8 / 10], [1 / 2, 1 / 2, 1 / 2, 1 / 2, 0, 95 / 100],
        [1 / 2, 1 / 2, 1 / 2, 1 / 2, 0, 1 / 2]]]) \<and>
   performDetection (3 / 4) [''osprey''] 100 100
     [[[1 / 2, 1 / 2, 1 / 2, 1 / 2, 0, 8 / 10], [1 / 2, 1 / 2, 1 / 2, 1 / 2, 0, 95 / 100],
       [1 / 2, 1 / 2, 1 / 2, 1 / 2, 0, 1 / 2]]] =
     Some [mkObject (95 / 100) 25 25 50 50 ''osprey - 95%''] \<and>
   (\<exists>obj\<in>set [mkObject (8 / 10) 0 0 99 99 ''a''].
      fgt (bbIntersectionOverUnion (mkObject (95 / 100) 0 15 99 99 ''c'') obj) (7 / 10)) \<and>
   fuseStep [mkObject (8 / 10) 0 0 99 99 ''a''] (mkObject (95 / 100) 0 15 99 99 ''c'') =
     [mkObject (95 / 100) 0 15 99 99 ''c''] \<and>
   \<not> fgt (bbIntersectionOverUnion (mkObject (95 / 100) 0 30 99 99 ''b'')
            (mkObject (8 / 10) 0 0 99 99 ''a'')) (7 / 10) \<and>
   fuseStep [mkObject (8 / 10) 0 0 99 99 ''a''] (mkObject (95 / 100) 0 30 99 99 ''b'') =
     [mkObject (8 / 10) 0 0 99 99 ''a'', mkObject (95 / 100) 0 30 99 99 ''b''] \<and>
   fuse [mkObject (8 / 10) 0 0 99 99 ''a'', mkObject (95 / 100) 0 15 99 99 ''c''] =
     [mkObject (95 / 100) 0 15 99 99 ''c'']"
proof -
  let ?rows = "[[1 / 2, 1 / 2, 1 / 2, 1 / 2, 0, 8 / 10], [1 / 2, 1 / 2, 1 / 2, 1 / 2, 0, 95 / 100],
        [1 / 2, 1 / 2, 1 / 2, 1 / 2, 0, 1 / 2 :: real]]"
  let ?a = "mkObject (8 / 10) 0 0 99 99 ''a''"
  let ?b = "mkObject (95 / 100) 0 30 99 99 ''b''"
  let ?c = "mkObject (95 / 100) 0 15 99 99 ''c''"
  have ok: "\<forall>row\<in>set (concat [?rows]). rowCandidate (3 / 4) [''osprey''] 100 100 row \<noteq> None"
    by code_simp
  have th: "thresholded (3 / 4) [''osprey''] 100 100 (concat [?rows]) =
      [mkObject (8 / 10) 25 25 50 50 ''osprey - 80%'', mkObject (95 / 100) 25 25 50 50 ''osprey - 95%'']"
    by code_simp
  have fu: "fuse [mkObject (8 / 10) 25 25 50 50 ''osprey - 80%'', mkObject (95 / 100) 25 25 50 50 ''osprey - 95%'']
      = [mkObject (95 / 100) 25 25 50 50 ''osprey - 95%'']"
    by (simp add: fuse_def fuseStep_def geo_defs)
  have p1: "performDetection (3 / 4) [''osprey''] 100 100 [?rows] =
      Some [mkObject (95 / 100) 25 25 50 50 ''osprey - 95%'']"
    using performDetection_fuses_in_arrival_order [of "[?rows]" "3 / 4" "[''osprey'']" 100 100] ok
    by (simp only: th fu)
  have ov: "\<exists>obj\<in>set [?a]. fgt (bbIntersectionOverUnion ?c obj) (7 / 10)"
    by (simp add: geo_defs)
  have nov: "\<forall>obj\<in>set [?a]. \<not> fgt (bbIntersectionOverUnion ?b obj) (7 / 10)"
    by (simp add: geo_defs)
  have ovs: "fgt (bbIntersectionOverUnion ?a ?c) (7 / 10)"
    by (simp add: geo_defs)
  have p3: "fuseStep [?a] ?c = [?c]"
  proof -
    from performDetection_fuses_in_arrival_order [of _ _ _ _ _ _ ?c "[?a]"] ov
    have l: "length (fuseStep [?a] ?c) = length [?a]"
      and e: "\<forall>i<length [?a]. fuseStep [?a] ?c ! i =
         (if fgt (bbIntersectionOverUnion ?c ([?a] ! i)) (7 / 10) \<and> confidence ([?a] ! i) < confidence ?c
          then ?c else [?a] ! i)" by blast+
    from e have "fuseStep [?a] ?c ! 0 = ?c" using ov by (simp add: mkObject_def)
    with l show ?thesis by (cases "fuseStep [?a] ?c") auto
  qed
  have p4: "fuseStep [?a] ?b = [?a, ?b]"
    using performDetection_fuses_in_arrival_order [of _ _ _ _ _ _ ?b "[?a]"] nov by simp
  have p5: "fuse [?a, ?c] = [?c]"
    using performDetection_fuses_in_arrival_order [of _ _ _ _ _ _ _ _ ?a ?c] ovs
    by (simp add: mkObject_def)
  have ok': "list_all (\<lambda>row. rowCandidate (3 / 4) [''osprey''] 100 100 row \<noteq> None) (concat [?rows])"
    using ok by (simp only: list_all_iff)
  have nov': "\<not> fgt (bbIntersectionOverUnion ?b ?a) (7 / 10)"
    using nov by simp
  show ?thesis using ok' p1 ov p3 nov' p4 p5 by blast
qed

text \<open>
  C4 (as amended). Fusing the output of the fusion pass again gives the same sequence
  exactly when no entry of that output overlaps an earlier entry of it above 0.7.
  Otherwise the pass is not idempotent: a candidate that replaced one entry may still
  overlap another entry of greater confidence, and a second pass merges the two.
\<close>

theorem fuse_idempotent_iff_separated:
  "fuse (fuse cands) = fuse cands \<longleftrightarrow> separated (fuse cands)"
proof
  assume "fuse (fuse cands) = fuse cands"
  then have "foldl fuseStep [] (fuse cands) = [] @ fuse cands" by (simp add: fuse_def)
  from foldl_fixed_separated[OF this] show "separated (fuse cands)" by simp
next
  assume sep: "separated (fuse cands)"
  have "foldl fuseStep [] (fuse cands) = [] @ fuse cands"
    by (rule foldl_separated[OF sep]) simp
  then show "fuse (fuse cands) = fuse cands" by (simp add: fuse_def)
qed

theorem fuse_idempotent_iff_separated_witness:
  "separated (fuse [mkObject (8 / 10) 0 0 99 99 ''a'', mkObject (95 / 100) 0 30 99 99 ''b'']) \<and>
   fuse (fuse [mkObject (8 / 10) 0 0 99 99 ''a'', mkObject (95 / 100) 0 30 99 99 ''b'']) =
     fuse [mkObject (8 / 10) 0 0 99 99 ''a'', mkObject (95 / 100) 0 30 99 99 ''b''] \<and>
   fuse [mkObject (8 / 10) 0 0 99 99 ''a'', mkObject (95 / 100) 0 30 99 99 ''b''] =
     [mkObject (8 / 10) 0 0 99 99 ''a'', mkObject (95 / 100) 0 30 99 99 ''b'']"
proof -
  have f: "fuse [mkObject (8 / 10) 0 0 99 99 ''a'', mkObject (95 / 100) 0 30 99 99 ''b''] =
     [mkObject (8 / 10) 0 0 99 99 ''a'', mkObject (95 / 100) 0 30 99 99 ''b'']"
    by (simp add: fuse_def fuseStep_def geo_defs)
  have s: "separated (fuse [mkObject (8 / 10) 0 0 99 99 ''a'', mkObject (95 / 100) 0 30 99 99 ''b''])"
    by (simp only: f) (simp add: geo_defs)
  from fuse_idempotent_iff_separated [THEN iffD2, OF s] f s show ?thesis by simp
qed

theorem fuse_idempotent_counterexample:
  "fuse [mkObject (8 / 10) 0 0 99 99 ''a'', mkObject (95 / 100) 0 30 99 99 ''b'',
         mkObject (9 / 10) 0 15 99 99 ''c''] =
     [mkObject (9 / 10) 0 15 99 99 ''c'', mkObject (95 / 100) 0 30 99 99 ''b''] \<and>
   fuse (fuse [mkObject (8 / 10) 0 0 99 99 ''a'', mkObject (95 / 100) 0 30 99 99 ''b'',
         mkObject (9 / 10) 0 15 99 99 ''c'']) = [mkObject (95 / 100) 0 30 99 99 ''b''] \<and>
   fuse (fuse [mkObject (8 / 10) 0 0 99 99 ''a'', mkObject (95 / 100) 0 30 99 99 ''b'',
         mkObject (9 / 10) 0 15 99 99 ''c'']) \<noteq>
   fuse [mkObject (8 / 10) 0 0 99 99 ''a'', mkObject (95 / 100) 0 30 99 99 ''b'',
         mkObject (9 / 10) 0 15 99 99 ''c'']"
proof -
  have one: "fuse [mkObject (8 / 10) 0 0 99 99 ''a'', mkObject (95 / 100) 0 30 99 99 ''b'',
         mkObject (9 / 10) 0 15 99 99 ''c''] =
     [mkObject (9 / 10) 0 15 99 99 ''c'', mkObject (95 / 100) 0 30 99 99 ''b'']"
    by (simp add: fuse_def fuseStep_def geo_defs)
  have two: "fuse [mkObject (9 / 10) 0 15 99 99 ''c'', mkObject (95 / 100) 0 30 99 99 ''b''] =
     [mkObject (95 / 100) 0 30 99 99 ''b'']"
    by (simp add: fuse_def fuseStep_def geo_defs)
  show ?thesis by (simp only: one two) simp
qed

section \<open>Overlap ratio\<close>

text \<open>
  C5 (as amended). For boxes on a pixel grid of at most \<open>2^24\<close> in every direction
  (position and size), \<open>bbIntersectionOverUnion\<close> always returns and never returns a
  negative value: the clamped intersection area is never negative, and the result is
  either a number between 0 and 1 or the NaN of the division 0/0, which it is exactly
  when the intersection area is zero and the two inclusive areas add up to zero. For
  boxes of non-negative width and height the divisor is strictly positive, so that no
  division by zero occurs and the result is a number between 0 and 1. No case defines
  the ratio of a degenerate box as 0.
\<close>

theorem bbIntersectionOverUnion_range:
  assumes "pixelBox a" and "pixelBox b"
  shows "0 \<le> interArea a b \<and>
     (bbIntersectionOverUnion a b = NaN \<longleftrightarrow>
        interArea a b = 0 \<and> boxArea a + boxArea b = 0) \<and>
     (bbIntersectionOverUnion a b = NaN \<or>
      (\<exists>r. bbIntersectionOverUnion a b = Finite r \<and> 0 \<le> r \<and> r \<le> 1)) \<and>
     (0 \<le> width a \<and> 0 \<le> height a \<and> 0 \<le> width b \<and> 0 \<le> height b \<longrightarrow>
        0 < boxArea a + boxArea b - interArea a b \<and>
        (\<exists>r. bbIntersectionOverUnion a b = Finite r \<and> 0 \<le> r \<and> r \<le> 1))"
proof -
  have fa: "fitsInt64 a" and fb: "fitsInt64 b"
    using assms by (simp_all add: pixelBox_fits)
  note range = iou_range[OF fa fb]
  have nan: "bbIntersectionOverUnion a b = NaN \<longleftrightarrow>
        interArea a b = 0 \<and> boxArea a + boxArea b = 0"
  proof
    assume "bbIntersectionOverUnion a b = NaN"
    with range show "interArea a b = 0 \<and> boxArea a + boxArea b = 0" by auto
  next
    assume "interArea a b = 0 \<and> boxArea a + boxArea b = 0"
    then show "bbIntersectionOverUnion a b = NaN"
      by (simp add: bbIntersectionOverUnion_def fdiv_def)
  qed
  have cases: "bbIntersectionOverUnion a b = NaN \<or>
      (\<exists>r. bbIntersectionOverUnion a b = Finite r \<and> 0 \<le> r \<and> r \<le> 1)"
    using range by blast
  have dims: "0 \<le> width a \<and> 0 \<le> height a \<and> 0 \<le> width b \<and> 0 \<le> height b \<longrightarrow>
        0 < boxArea a + boxArea b - interArea a b \<and>
        (\<exists>r. bbIntersectionOverUnion a b = Finite r \<and> 0 \<le> r \<and> r \<le> 1)"
  proof
    assume d: "0 \<le> width a \<and> 0 \<le> height a \<and> 0 \<le> width b \<and> 0 \<le> height b"
    then have pos: "0 < boxArea a + boxArea b - interArea a b"
      using iou_defined[OF fa fb] by blast
    from range pos interArea_nonneg[of a b]
    have "\<exists>r. bbIntersectionOverUnion a b = Finite r \<and> 0 \<le> r \<and> r \<le> 1" by auto
    with pos show "0 < boxArea a + boxArea b - interArea a b \<and>
        (\<exists>r. bbIntersectionOverUnion a b = Finite r \<and> 0 \<le> r \<and> r \<le> 1)" by blast
  qed
  show ?thesis using interArea_nonneg[of a b] nan cases dims by blast
qed

theorem bbIntersectionOverUnion_range_witness:
  "pixelBox (mkObject (8 / 10) 0 0 99 99 ''a'') \<and> pixelBox (mkObject (9 / 10) 0 15 99 99 ''c'') \<and>
   0 \<le> width (mkObject (8 / 10) 0 0 99 99 ''a'') \<and> 0 \<le> height (mkObject (8 / 10) 0 0 99 99 ''a'') \<and>
   0 \<le> width (mkObject (9 / 10) 0 15 99 99 ''c'') \<and> 0 \<le> height (mkObject (9 / 10) 0 15 99 99 ''c'') \<and>
   0 < boxArea (mkObject (8 / 10) 0 0 99 99 ''a'') + boxArea (mkObject (9 / 10) 0 15 99 99 ''c'')
         - interArea (mkObject (8 / 10) 0 0 99 99 ''a'') (mkObject (9 / 10) 0 15 99 99 ''c'') \<and>
   bbIntersectionOverUnion (mkObject (8 / 10) 0 0 99 99 ''a'') (mkObject (9 / 10) 0 15 99 99 ''c'') =
     Finite (17 / 23) \<and>
   pixelBox (mkObject (9 / 10) 0 0 (- 5) 2 ''x'') \<and> pixelBox (mkObject (9 / 10) 0 0 3 2 ''y'') \<and>
   boxArea (mkObject (9 / 10) 0 0 (- 5) 2 ''x'') = - 12 \<and>
   boxArea (mkObject (9 / 10) 0 0 3 2 ''y'') = 12 \<and>
   bbIntersectionOverUnion (mkObject (9 / 10) 0 0 (- 5) 2 ''x'') (mkObject (9 / 10) 0 0 3 2 ''y'') = NaN"
proof -
  let ?x = "mkObject (9 / 10) 0 0 (- 5) 2 ''x''"
  let ?y = "mkObject (9 / 10) 0 0 3 2 ''y''"
  have fa: "pixelBox (mkObject (8 / 10) 0 0 99 99 ''a'')"
    by (simp add: pixelBox_def mkObject_def)
  have fc: "pixelBox (mkObject (9 / 10) 0 15 99 99 ''c'')"
    by (simp add: pixelBox_def mkObject_def)
  have d: "0 \<le> width (mkObject (8 / 10) 0 0 99 99 ''a'') \<and> 0 \<le> height (mkObject (8 / 10) 0 0 99 99 ''a'') \<and>
   0 \<le> width (mkObject (9 / 10) 0 15 99 99 ''c'') \<and> 0 \<le> height (mkObject (9 / 10) 0 15 99 99 ''c'')"
    by (simp add: mkObject_def)
  have v: "bbIntersectionOverUnion (mkObject (8 / 10) 0 0 99 99 ''a'') (mkObject (9 / 10) 0 15 99 99 ''c'') =
     Finite (17 / 23)"
    by (simp add: geo_defs)
  from bbIntersectionOverUnion_range [OF fa fc] d
  have p: "0 < boxArea (mkObject (8 / 10) 0 0 99 99 ''a'') + boxArea (mkObject (9 / 10) 0 15 99 99 ''c'')
         - interArea (mkObject (8 / 10) 0 0 99 99 ''a'') (mkObject (9 / 10) 0 15 99 99 ''c'')"
    by blast
  have fx: "pixelBox ?x" by (simp add: pixelBox_def mkObject_def)
  have fy: "pixelBox ?y" by (simp add: pixelBox_def mkObject_def)
  have ax: "boxArea ?x = - 12" by (simp add: geo_defs)
  have ay: "boxArea ?y = 12" by (simp add: geo_defs)
  have ixy: "interArea ?x ?y = 0" by (simp add: geo_defs)
  from bbIntersectionOverUnion_range [OF fx fy] ixy ax ay
  have n: "bbIntersectionOverUnion ?x ?y = NaN" by simp
  show ?thesis by (intro conjI) (rule fa fc d[THEN conjunct1] d[THEN conjunct2, THEN conjunct1]
      d[THEN conjunct2, THEN conjunct2, THEN conjunct1] d[THEN conjunct2, THEN conjunct2, THEN conjunct2]
      p v fx fy ax ay n)+
qed

theorem bbIntersectionOverUnion_degenerate_counterexample:
  "bbIntersectionOverUnion (mkObject (9 / 10) 0 0 0 0 ''x'') (mkObject (9 / 10) 0 0 0 0 ''x'') = Finite 1 \<and>
   bbIntersectionOverUnion (mkObject (9 / 10) 0 (- (2 ^ 63) + 5) (- 10) 0 ''x'')
     (mkObject (9 / 10) 0 0 0 0 ''x'') = Finite (- (1 / 9)) \<and>
   bbIntersectionOverUnion (mkObject (9 / 10) 0 0 (- 1) (- 1) ''x'') (mkObject (9 / 10) 0 0 (- 1) (- 1) ''x'') = NaN \<and>
   boxArea (mkObject (9 / 10) 0 0 (- 1) (- 1) ''x'') + boxArea (mkObject (9 / 10) 0 0 (- 1) (- 1) ''x'')
     - interArea (mkObject (9 / 10) 0 0 (- 1) (- 1) ''x'') (mkObject (9 / 10) 0 0 (- 1) (- 1) ''x'') = 0"
  by (simp add: geo_defs)

section \<open>Classification\<close>

text \<open>
  C3 (as amended). For a score vector with at least one strictly positive score,
  \<open>getClassIDAndConfidence\<close> returns the first index at which the maximum of the vector
  occurs, together with that maximum. For a vector without a strictly positive score,
  the empty one included, it returns (0, 0.0).
\<close>

theorem getClassIDAndConfidence_first_positive_max:
  "((\<exists>y\<in>set x. 0 < y) \<longrightarrow>
      (case getClassIDAndConfidence x of (r, m) \<Rightarrow>
         r < length x \<and> x ! r = m \<and> m = Max (set x) \<and> (\<forall>j<r. x ! j < m))) \<and>
   ((\<forall>y\<in>set x. y \<le> 0) \<longrightarrow> getClassIDAndConfidence x = (0, 0))"
proof (intro conjI impI)
  assume ex: "\<exists>y\<in>set x. 0 < y"
  obtain r m where rm: "classScan x 0 0 0 = (r, m)" by (cases "classScan x 0 0 0")
  from classScan_first[OF ex rm] classScan_Max[OF ex rm]
  show "case getClassIDAndConfidence x of (r, m) \<Rightarrow>
         r < length x \<and> x ! r = m \<and> m = Max (set x) \<and> (\<forall>j<r. x ! j < m)"
    by (simp add: getClassIDAndConfidence_def rm)
next
  assume "\<forall>y\<in>set x. y \<le> 0"
  then show "getClassIDAndConfidence x = (0, 0)"
    unfolding getClassIDAndConfidence_def by (rule classScan_le)
qed

theorem getClassIDAndConfidence_first_positive_max_witness:
  "(\<exists>y\<in>set [1 / 10, 9 / 10, 3 / 10 :: real]. 0 < y) \<and>
   getClassIDAndConfidence [1 / 10, 9 / 10, 3 / 10] = (1, 9 / 10) \<and>
   (\<exists>y\<in>set [1 / 2, 1 / 2 :: real]. 0 < y) \<and>
   getClassIDAndConfidence [1 / 2, 1 / 2] = (0, 1 / 2) \<and>
   list_all (\<lambda>y. y \<le> 0) ([] :: real list) \<and> getClassIDAndConfidence [] = (0, 0)"
  using getClassIDAndConfidence_first_positive_max [of "[1 / 10, 9 / 10, 3 / 10]"]
    getClassIDAndConfidence_first_positive_max [of "[1 / 2, 1 / 2]"]
    getClassIDAndConfidence_first_positive_max [of "[]"]
  by (simp add: getClassIDAndConfidence_def)

theorem getClassIDAndConfidence_max_counterexample:
  "getClassIDAndConfidence [- (1 / 2), - (1 / 4)] = (0, 0) \<and>
   Max (set [- (1 / 2), - (1 / 4) :: real]) = - (1 / 4) \<and>
   snd (getClassIDAndConfidence [- (1 / 2), - (1 / 4)]) \<noteq> Max (set [- (1 / 2), - (1 / 4) :: real])"
  by (simp add: getClassIDAndConfidence_def)

section \<open>Source classification\<close>

text \<open>
  C10. \<open>getDeviceType\<close> returns IMAGE exactly for an address that ends in ".jpg" or
  ".png"; otherwise VIDEO exactly for one that ends in ".mp4" or equals "0"; otherwise
  STREAM exactly for one that starts with "rtsp"; and -1 for every other address. The
  launch loop of \<open>main\<close> starts a pipeline for exactly the addresses of non-negative
  type, so an address of type -1 is skipped.
\<close>

theorem getDeviceType_cases:
  "(getDeviceType s = IMAGE \<longleftrightarrow> (\<exists>p. s = p @ ''.jpg'') \<or> (\<exists>p. s = p @ ''.png'')) \<and>
   (getDeviceType s = VIDEO \<longleftrightarrow>
      \<not> ((\<exists>p. s = p @ ''.jpg'') \<or> (\<exists>p. s = p @ ''.png'')) \<and>
      ((\<exists>p. s = p @ ''.mp4'') \<or> s = ''0'')) \<and>
   (getDeviceType s = STREAM \<longleftrightarrow>
      \<not> ((\<exists>p. s = p @ ''.jpg'') \<or> (\<exists>p. s = p @ ''.png'')) \<and>
      \<not> ((\<exists>p. s = p @ ''.mp4'') \<or> s = ''0'') \<and> (\<exists>r. s = ''rtsp'' @ r)) \<and>
   (getDeviceType s = - 1 \<longleftrightarrow>
      \<not> ((\<exists>p. s = p @ ''.jpg'') \<or> (\<exists>p. s = p @ ''.png'')) \<and>
      \<not> ((\<exists>p. s = p @ ''.mp4'') \<or> s = ''0'') \<and> \<not> (\<exists>r. s = ''rtsp'' @ r)) \<and>
   (getDeviceType s < 0 \<longrightarrow> (\<forall>t i. (t, s, i) \<notin> set (launchLoop k ids))) \<and>
   launchLoop k ids =
     map (\<lambda>(i, d). (getDeviceType d, d, i))
       (filter (\<lambda>(i, d). 0 \<le> getDeviceType d) (zip [k ..< k + length ids] ids))"
proof -
  have ty: "getDeviceType s =
     (if (\<exists>p. s = p @ ''.jpg'') \<or> (\<exists>p. s = p @ ''.png'') then IMAGE
      else if (\<exists>p. s = p @ ''.mp4'') \<or> s = ''0'' then VIDEO
      else if (\<exists>r. s = ''rtsp'' @ r) then STREAM else - 1)"
    unfolding getDeviceType_def hasSuffix_iff hasPrefix_iff by simp
  have skip: "getDeviceType s < 0 \<longrightarrow> (\<forall>t i. (t, s, i) \<notin> set (launchLoop k ids))"
    by (fastforce dest: launchLoop_mem)
  show ?thesis
    using skip launchLoop_eq[of k ids]
    by (simp add: ty IMAGE_def VIDEO_def STREAM_def)
qed

theorem getDeviceType_cases_witness:
  "getDeviceType ''a.jpg'' = IMAGE \<and> getDeviceType ''b.png'' = IMAGE \<and>
   getDeviceType ''c.mp4'' = VIDEO \<and> getDeviceType ''0'' = VIDEO \<and>
   getDeviceType ''rtsp://x'' = STREAM \<and> getDeviceType ''foo'' = - 1 \<and>
   getDeviceType ''foo'' < 0 \<and>
   (\<forall>t i. (t, ''foo'', i) \<notin> set (launchLoop 0 [''a.jpg'', ''foo'', ''rtsp://x''])) \<and>
   launchLoop 0 [''a.jpg'', ''foo'', ''rtsp://x''] = [(IMAGE, ''a.jpg'', 0), (STREAM, ''rtsp://x'', 2)]"
proof -
  have neg: "getDeviceType ''foo'' < 0"
    by (simp add: getDeviceType_def hasSuffix_def hasPrefix_def)
  have skip: "\<forall>t i. (t, ''foo'', i) \<notin> set (launchLoop 0 [''a.jpg'', ''foo'', ''rtsp://x''])"
    using getDeviceType_cases [of "''foo''" 0 "[''a.jpg'', ''foo'', ''rtsp://x'']"] neg by blast
  show ?thesis
    using neg skip
    by (simp add: getDeviceType_def hasSuffix_def hasPrefix_def IMAGE_def VIDEO_def STREAM_def)
qed

section \<open>Capture loop\<close>

text \<open>
  C6 (as amended). For an Image source the frame is read once, before the loop, and the
  loop never reads it again; every iteration runs the detection on the frame the loop
  holds. In production mode that frame stays as it was read, and the loop is still
  running after any number of iterations that meet no fatal Catalog error and no panic,
  with one detection result per iteration. In test mode the boxes and labels of every
  detection result are drawn into the frame, so that the next iteration detects on the
  frame drawn over; the loop runs until the first iteration in which the window reports
  a key, and ends there as cancelled.
\<close>

theorem image_loop_reruns_detection:
  "((\<forall>j<n. quietProd thr cl img (env j)) \<longrightarrow>
      (case runLoop P thr cl True IMAGE env n 0 img [] of
         (state, img', outs) \<Rightarrow> state = Running \<and> img' = img \<and> length outs = n)) \<and>
   ((\<forall>j<n. quietTest thr cl img (env j)) \<longrightarrow>
      (case runLoop P thr cl False IMAGE env n 0 img [] of
         (state, img', outs) \<Rightarrow>
            state = Running \<and> img' = painted P img outs \<and> length outs = n)) \<and>
   ((\<forall>j<k. quietTest thr cl img (env j)) \<and>
    performDetection thr cl (fcols img) (frows img) (netOutput (env k)) \<noteq> None \<and>
    0 \<le> key (env k) \<and> k < n \<longrightarrow>
      (case runLoop P thr cl False IMAGE env n 0 img [] of
         (state, img', outs) \<Rightarrow>
            state = Terminated Cancelled \<and> img' = painted P img outs \<and> length outs = Suc k))"
proof (intro conjI impI)
  assume "\<forall>j<n. quietProd thr cl img (env j)"
  then have q: "\<forall>j. 0 \<le> j \<and> j < 0 + n \<longrightarrow> quietProd thr cl img (env j)" by simp
  have "\<exists>outs'. runLoop P thr cl True IMAGE env n 0 img [] = (Running, img, outs') \<and>
             length outs' = length ([] :: detectedObject list list) + n"
    by (rule runLoop_continues[where Q = "quietProd thr cl img"]) (fact loopBody_image_quietProd q)+
  then show "case runLoop P thr cl True IMAGE env n 0 img [] of
         (state, img', outs) \<Rightarrow> state = Running \<and> img' = img \<and> length outs = n"
    by auto
next
  assume "\<forall>j<n. quietTest thr cl img (env j)"
  then have q: "\<forall>j. 0 \<le> j \<and> j < 0 + n \<longrightarrow> quietTest thr cl img (env j)" by simp
  from runLoop_test_continues[OF q, where outs = "[]" and P = P]
  have "\<exists>outs'. runLoop P thr cl False IMAGE env n 0 img [] = (Running, painted P img outs', outs') \<and>
             length outs' = n"
    by (simp add: painted_Nil)
  then show "case runLoop P thr cl False IMAGE env n 0 img [] of
         (state, img', outs) \<Rightarrow>
            state = Running \<and> img' = painted P img outs \<and> length outs = n"
    by auto
next
  assume h: "(\<forall>j<k. quietTest thr cl img (env j)) \<and>
    performDetection thr cl (fcols img) (frows img) (netOutput (env k)) \<noteq> None \<and>
    0 \<le> key (env k) \<and> k < n"
  then have q: "\<forall>j. 0 \<le> j \<and> j < 0 + k \<longrightarrow> quietTest thr cl img (env j)" by simp
  from h have d: "performDetection thr cl (fcols img) (frows img) (netOutput (env (0 + k))) \<noteq> None"
    and ky: "0 \<le> key (env (0 + k))" and kn: "k < n" by simp_all
  from runLoop_test_stops[OF q d ky kn, where outs = "[]" and P = P]
  have "\<exists>outs'. runLoop P thr cl False IMAGE env n 0 img [] =
               (Terminated Cancelled, painted P img outs', outs') \<and> length outs' = Suc k"
    by (simp add: painted_Nil)
  then show "case runLoop P thr cl False IMAGE env n 0 img [] of
         (state, img', outs) \<Rightarrow>
            state = Terminated Cancelled \<and> img' = painted P img outs \<and> length outs = Suc k"
    by auto
qed

theorem image_loop_reruns_detection_witness:
  "allBelow 3 (\<lambda>j. quietProd (3 / 4) [''osprey''] stillFrame oneBird) \<and>
   fst (runLoop countPaint (3 / 4) [''osprey''] True IMAGE (\<lambda>k. oneBird) 3 0 stillFrame []) = Running \<and>
   fst (snd (runLoop countPaint (3 / 4) [''osprey''] True IMAGE (\<lambda>k. oneBird) 3 0 stillFrame [])) =
     stillFrame \<and>
   length (snd (snd (runLoop countPaint (3 / 4) [''osprey''] True IMAGE (\<lambda>k. oneBird) 3 0
     stillFrame []))) = 3 \<and>
   allBelow 2 (\<lambda>j. quietTest (3 / 4) [''osprey''] stillFrame oneBird) \<and>
   fst (runLoop countPaint (3 / 4) [''osprey''] False IMAGE (\<lambda>k. oneBird) 2 0 stillFrame []) = Running \<and>
   fst (snd (runLoop countPaint (3 / 4) [''osprey''] False IMAGE (\<lambda>k. oneBird) 2 0 stillFrame [])) =
     painted countPaint stillFrame
       (snd (snd (runLoop countPaint (3 / 4) [''osprey''] False IMAGE (\<lambda>k. oneBird) 2 0
          stillFrame []))) \<and>
   0 \<le> key (oneBird\<lparr>key := 113\<rparr>) \<and>
   fst (runLoop countPaint (3 / 4) [''osprey''] False IMAGE (\<lambda>k. oneBird\<lparr>key := 113\<rparr>) 4 0
     stillFrame []) = Terminated Cancelled \<and>
   length (snd (snd (runLoop countPaint (3 / 4) [''osprey''] False IMAGE
     (\<lambda>k. oneBird\<lparr>key := 113\<rparr>) 4 0 stillFrame []))) = 1"
proof -
  let ?env1 = "\<lambda>k::nat. oneBird"
  let ?env2 = "\<lambda>k::nat. oneBird\<lparr>key := 113\<rparr>"
  have qp: "quietProd (3 / 4) [''osprey''] stillFrame oneBird"
    by (simp add: quietProd_def stillFrame_def oneBird_def oneBird_detect)
  have qt: "quietTest (3 / 4) [''osprey''] stillFrame oneBird"
    by (simp add: quietTest_def stillFrame_def oneBird_def oneBird_detect)
  have a1: "\<forall>j<3. quietProd (3 / 4) [''osprey''] stillFrame (?env1 j)" using qp by simp
  have a2: "\<forall>j<2. quietTest (3 / 4) [''osprey''] stillFrame (?env1 j)" using qt by simp
  have a3: "(\<forall>j<0. quietTest (3 / 4) [''osprey''] stillFrame (?env2 j)) \<and>
    performDetection (3 / 4) [''osprey''] (fcols stillFrame) (frows stillFrame) (netOutput (?env2 0)) \<noteq> None \<and>
    0 \<le> key (?env2 0) \<and> (0::nat) < 4"
    by (simp add: stillFrame_def oneBird_def oneBird_detect)
  note T1 = image_loop_reruns_detection
      [where n = 3 and thr = "3 / 4" and cl = "[''osprey'']" and img = stillFrame and env = ?env1
         and P = countPaint]
  note T2 = image_loop_reruns_detection
      [where n = 2 and thr = "3 / 4" and cl = "[''osprey'']" and img = stillFrame and env = ?env1
         and P = countPaint]
  note T3 = image_loop_reruns_detection
      [where n = 4 and thr = "3 / 4" and cl = "[''osprey'']" and img = stillFrame and env = ?env2
         and k = 0 and P = countPaint]
  have t1: "case runLoop countPaint (3 / 4) [''osprey''] True IMAGE ?env1 3 0 stillFrame [] of
         (state, img', outs) \<Rightarrow> state = Running \<and> img' = stillFrame \<and> length outs = 3"
    by (rule T1[THEN conjunct1, THEN mp, OF a1])
  have t2: "case runLoop countPaint (3 / 4) [''osprey''] False IMAGE ?env1 2 0 stillFrame [] of
         (state, img', outs) \<Rightarrow>
            state = Running \<and> img' = painted countPaint stillFrame outs \<and> length outs = 2"
    by (rule T2[THEN conjunct2, THEN conjunct1, THEN mp, OF a2])
  have t3: "case runLoop countPaint (3 / 4) [''osprey''] False IMAGE ?env2 4 0 stillFrame [] of
         (state, img', outs) \<Rightarrow>
            state = Terminated Cancelled \<and> img' = painted countPaint stillFrame outs \<and>
            length outs = Suc 0"
    by (rule T3[THEN conjunct2, THEN conjunct2, THEN mp, OF a3])
  have r1: "fst (runLoop countPaint (3 / 4) [''osprey''] True IMAGE ?env1 3 0 stillFrame []) = Running"
    "fst (snd (runLoop countPaint (3 / 4) [''osprey''] True IMAGE ?env1 3 0 stillFrame [])) = stillFrame"
    "length (snd (snd (runLoop countPaint (3 / 4) [''osprey''] True IMAGE ?env1 3 0 stillFrame []))) = 3"
    using t1 by (simp_all add: case_prod_beta)
  have r2: "fst (runLoop countPaint (3 / 4) [''osprey''] False IMAGE ?env1 2 0 stillFrame []) = Running"
    "fst (snd (runLoop countPaint (3 / 4) [''osprey''] False IMAGE ?env1 2 0 stillFrame [])) =
       painted countPaint stillFrame
         (snd (snd (runLoop countPaint (3 / 4) [''osprey''] False IMAGE ?env1 2 0 stillFrame [])))"
    using t2 by (simp_all add: case_prod_beta)
  have r3: "fst (runLoop countPaint (3 / 4) [''osprey''] False IMAGE ?env2 4 0 stillFrame []) =
       Terminated Cancelled"
    "length (snd (snd (runLoop countPaint (3 / 4) [''osprey''] False IMAGE ?env2 4 0 stillFrame []))) = 1"
    using t3 by (simp_all add: case_prod_beta)
  have k: "0 \<le> key (oneBird\<lparr>key := 113\<rparr>)" by simp
  have b1: "allBelow 3 (\<lambda>j. quietProd (3 / 4) [''osprey''] stillFrame oneBird)"
    using qp by (simp add: numeral_3_eq_3)
  have b2: "allBelow 2 (\<lambda>j. quietTest (3 / 4) [''osprey''] stillFrame oneBird)"
    using qt by (simp add: numeral_2_eq_2)
  show ?thesis
    by (intro conjI) (rule b1 r1 b2 r2 k r3)+
qed

theorem image_loop_counterexample:
  "runLoop countPaint (3 / 4) [''osprey''] True IMAGE (\<lambda>k. oneBird) 3 0 stillFrame [] =
     (Running, stillFrame,
      [[mkObject (9 / 10) 25 25 50 50 ''osprey - 90%''],
       [mkObject (9 / 10) 25 25 50 50 ''osprey - 90%''],
       [mkObject (9 / 10) 25 25 50 50 ''osprey - 90%'']]) \<and>
   runLoop countPaint (3 / 4) [''osprey''] False IMAGE (\<lambda>k. oneBird) 3 0 stillFrame [] =
     (Running, stillFrame\<lparr>pixels := 4\<rparr>,
      [[mkObject (9 / 10) 25 25 50 50 ''osprey - 90%''],
       [mkObject (9 / 10) 25 25 50 50 ''osprey - 90%''],
       [mkObject (9 / 10) 25 25 50 50 ''osprey - 90%'']])"
proof -
  have lb: "loopBody countPaint (3 / 4) [''osprey''] True IMAGE stillFrame oneBird =
      \<lparr>imgAfter = stillFrame, detection = Some [mkObject (9 / 10) 25 25 50 50 ''osprey - 90%''], stop = None\<rparr>"
    by (simp add: loopBody_def IMAGE_def STREAM_def VIDEO_def stillFrame_def oneBird_def oneBird_detect)
  have lt: "\<And>p. loopBody countPaint (3 / 4) [''osprey''] False IMAGE (stillFrame\<lparr>pixels := p\<rparr>) oneBird =
      \<lparr>imgAfter = stillFrame\<lparr>pixels := Suc p\<rparr>,
       detection = Some [mkObject (9 / 10) 25 25 50 50 ''osprey - 90%''], stop = None\<rparr>"
    by (simp add: loopBody_def IMAGE_def STREAM_def VIDEO_def stillFrame_def oneBird_def oneBird_detect
        drawBoundingBoxes_def countPaint_def)
  have s0: "stillFrame = stillFrame\<lparr>pixels := 1\<rparr>" by (simp add: stillFrame_def)
  have one: "runLoop countPaint (3 / 4) [''osprey''] True IMAGE (\<lambda>k. oneBird) (Suc (Suc (Suc 0))) 0
       stillFrame [] =
     (Running, stillFrame,
      [[mkObject (9 / 10) 25 25 50 50 ''osprey - 90%''],
       [mkObject (9 / 10) 25 25 50 50 ''osprey - 90%''],
       [mkObject (9 / 10) 25 25 50 50 ''osprey - 90%'']])"
    by (simp add: lb)
  have "runLoop countPaint (3 / 4) [''osprey''] False IMAGE (\<lambda>k. oneBird) (Suc (Suc (Suc 0))) 0
       (stillFrame\<lparr>pixels := 1\<rparr>) [] =
     (Running, stillFrame\<lparr>pixels := 4\<rparr>,
      [[mkObject (9 / 10) 25 25 50 50 ''osprey - 90%''],
       [mkObject (9 / 10) 25 25 50 50 ''osprey - 90%''],
       [mkObject (9 / 10) 25 25 50 50 ''osprey - 90%'']])"
    by (simp add: lt)
  then have two: "runLoop countPaint (3 / 4) [''osprey''] False IMAGE (\<lambda>k. oneBird) (Suc (Suc (Suc 0))) 0
       stillFrame [] =
     (Running, stillFrame\<lparr>pixels := 4\<rparr>,
      [[mkObject (9 / 10) 25 25 50 50 ''osprey - 90%''],
       [mkObject (9 / 10) 25 25 50 50 ''osprey - 90%''],
       [mkObject (9 / 10) 25 25 50 50 ''osprey - 90%'']])"
    using s0 by simp
  show ?thesis using one two by (simp add: numeral_3_eq_3)
qed

text \<open>
  C7. A Video source reads a frame that is empty although \<open>Read\<close> succeeded: the loop does
  not go on to the next iteration, \<open>log.Fatal\<close> ends the process. Here the second frame
  of three is empty.
\<close>

theorem empty_frame_exits_process:
  "loopBody P (3 / 4) [''osprey''] True VIDEO stillFrame
      (oneBird\<lparr>readFrame := stillFrame\<lparr>fempty := True\<rparr>\<rparr>) =
     \<lparr>imgAfter = stillFrame\<lparr>fempty := True\<rparr>, detection = None, stop = Some ProcessExit\<rparr> \<and>
   runLoop P (3 / 4) [''osprey''] True VIDEO
      (\<lambda>k. if k = 1 then oneBird\<lparr>readFrame := stillFrame\<lparr>fempty := True\<rparr>\<rparr> else oneBird)
      3 0 stillFrame [] =
     (Terminated ProcessExit, stillFrame\<lparr>fempty := True\<rparr>,
      [[mkObject (9 / 10) 25 25 50 50 ''osprey - 90%'']])"
proof -
  let ?bad = "oneBird\<lparr>readFrame := stillFrame\<lparr>fempty := True\<rparr>\<rparr>"
  have good: "loopBody P (3 / 4) [''osprey''] True VIDEO stillFrame oneBird =
      \<lparr>imgAfter = stillFrame, detection = Some [mkObject (9 / 10) 25 25 50 50 ''osprey - 90%''], stop = None\<rparr>"
    by (simp add: loopBody_def IMAGE_def STREAM_def VIDEO_def stillFrame_def oneBird_def oneBird_detect)
  have bad: "loopBody P (3 / 4) [''osprey''] True VIDEO stillFrame ?bad =
     \<lparr>imgAfter = stillFrame\<lparr>fempty := True\<rparr>, detection = None, stop = Some ProcessExit\<rparr>"
    by (simp add: loopBody_def IMAGE_def STREAM_def VIDEO_def stillFrame_def oneBird_def)
  have "runLoop P (3 / 4) [''osprey''] True VIDEO (\<lambda>k. if k = 1 then ?bad else oneBird)
      (Suc (Suc (Suc 0))) 0 stillFrame [] =
     (Terminated ProcessExit, stillFrame\<lparr>fempty := True\<rparr>,
      [[mkObject (9 / 10) 25 25 50 50 ''osprey - 90%'']])"
    by (simp add: good bad)
  then show ?thesis using bad by (simp add: numeral_3_eq_3)
qed

text \<open>
  C9. The attempt to open a STREAM source fails before the deadline. The caller of the
  \<open>select\<close> does not learn of it: it waits for the deadline and takes the same arm as
  for an attempt that has not returned in time; the failure shows as a printed message
  only, followed by the message of a timeout, and \<open>wg.Done()\<close> runs twice for the one
  \<open>wg.Add(1)\<close> of the source.
\<close>

theorem refused_connection_reported_as_timeout:
  "connectStream \<lparr>openFails = True, beforeDeadline = True\<rparr> =
     \<lparr>arm = DeadlineDone, wgDone = 2, printed = [ErrorOpening, ConnectionTimeouted]\<rparr> \<and>
   connectStream \<lparr>openFails = False, beforeDeadline = False\<rparr> =
     \<lparr>arm = DeadlineDone, wgDone = 1, printed = [ConnectionTimeouted]\<rparr> \<and>
   connectStream \<lparr>openFails = False, beforeDeadline = True\<rparr> =
     \<lparr>arm = CaptureReceived, wgDone = 0, printed = [ConnectionSuccessful]\<rparr> \<and>
   arm (connectStream \<lparr>openFails = True, beforeDeadline = True\<rparr>) =
     arm (connectStream \<lparr>openFails = False, beforeDeadline = False\<rparr>)"
proof -
  have refused: "connectStream \<lparr>openFails = True, beforeDeadline = True\<rparr> =
     \<lparr>arm = DeadlineDone, wgDone = 2, printed = [ErrorOpening, ConnectionTimeouted]\<rparr>"
    by (simp add: connectStream_def)
  have late: "connectStream \<lparr>openFails = False, beforeDeadline = False\<rparr> =
     \<lparr>arm = DeadlineDone, wgDone = 1, printed = [ConnectionTimeouted]\<rparr>"
    by (simp add: connectStream_def)
  have good: "connectStream \<lparr>openFails = False, beforeDeadline = True\<rparr> =
     \<lparr>arm = CaptureReceived, wgDone = 0, printed = [ConnectionSuccessful]\<rparr>"
    by (simp add: connectStream_def)
  have same: "arm (connectStream \<lparr>openFails = True, beforeDeadline = True\<rparr>) =
     arm (connectStream \<lparr>openFails = False, beforeDeadline = False\<rparr>)"
    by (simp add: refused late)
  show ?thesis by (intro conjI) (rule refused late good same)+
qed

section \<open>Alert throttle\<close>




text \<open>
  C8. One observer is subscribed to two streams, and an event arrives on the second. The
  subscription to the second stream has no alert in either run; the runs differ in the
  alerts of the subscription to the first stream only. The observer is notified in one
  run and not in the other, and the alert is recorded under the first subscription.
\<close>

theorem throttle_keyed_by_observer_only:
  "lastAlert (twoStreams []) 2 = None \<and>
   lastAlert (twoStreams [alertAt 5 1 (1700000000000000000 - minuteNanos)]) 2 = None \<and>
   notifyObservers cal (twoStreams []) (\<lambda>k. 1700000000000000000) ''rtsp://two'' 7 =
     Some ([''test@mail''], twoStreams [alertAt 7 1 1700000000000000000]) \<and>
   notifyObservers cal (twoStreams [alertAt 5 1 (1700000000000000000 - minuteNanos)])
       (\<lambda>k. 1700000000000000000) ''rtsp://two'' 7 =
     Some ([], twoStreams [alertAt 5 1 (1700000000000000000 - minuteNanos)])"
proof -
  let ?now = "1700000000000000000 :: int"
  have a: "lastAlert (twoStreams []) 2 = None"
    by (simp add: lastAlert_def twoStreams_def)
  have b: "lastAlert (twoStreams [alertAt 5 1 (?now - minuteNanos)]) 2 = None"
    by (simp add: lastAlert_def twoStreams_def alertAt_def)
  have l0: "lastAlert (twoStreams []) 1 = None"
    by (simp add: lastAlert_def twoStreams_def)
  have l1: "lastAlert (twoStreams [alertAt 5 1 (?now - minuteNanos)]) 1 = Some (?now - minuteNanos)"
    by (simp add: lastAlert_def twoStreams_def alertAt_def)
  have t: "throttled cal ''m'' 15 (?now - minuteNanos) ?now"
    by (simp add: throttled_def minuteNanos_def neg64_def mul64_def wrap64_def)
  have h0: "hasBeenAlerted cal (twoStreams []) ?now ''test@mail'' 7 =
      Some (False, twoStreams [alertAt 7 1 ?now])"
    by (simp add: hasBeenAlerted_def find_twoStreams scan_15m l0 insert_twoStreams)
  have h1: "hasBeenAlerted cal (twoStreams [alertAt 5 1 (?now - minuteNanos)]) ?now ''test@mail'' 7 =
      Some (True, twoStreams [alertAt 5 1 (?now - minuteNanos)])"
    by (simp add: hasBeenAlerted_def find_twoStreams scan_15m l1 t)
  have c: "notifyObservers cal (twoStreams []) (\<lambda>k. ?now) ''rtsp://two'' 7 =
     Some ([''test@mail''], twoStreams [alertAt 7 1 ?now])"
    by (simp add: notifyObservers_def emails_twoStreams h0)
  have d: "notifyObservers cal (twoStreams [alertAt 5 1 (?now - minuteNanos)]) (\<lambda>k. ?now) ''rtsp://two'' 7 =
     Some ([], twoStreams [alertAt 5 1 (?now - minuteNanos)])"
    by (simp add: notifyObservers_def emails_twoStreams h1)
  show ?thesis by (intro conjI) (rule a b c d)+
qed

end
